theory Spec2Isabelle
  imports Main
begin

section \<open>Constructor options\<close>

text \<open>
  Every constructor of the library builds its configuration the same way:
  \<^verbatim>\<open>this.config = { key: config.key || dflt, ..., ...config }\<close>.
  A caller's option is either absent (\<open>None\<close>, read as \<open>undefined\<close>) or present with
  a value of the option's type. \<open>or_*\<close> is JavaScript's \<open>||\<close> on such a read (the right
  operand replaces a falsy left one); \<open>spread\<close> is the trailing \<open>...config\<close>, which puts
  the caller's own value over the entry computed before it whenever the key is present.
\<close>

definition or_int :: "int option \<Rightarrow> int \<Rightarrow> int" where
  "or_int x d = (case x of None \<Rightarrow> d | Some n \<Rightarrow> if n \<noteq> 0 then n else d)"

definition or_bool :: "bool option \<Rightarrow> bool \<Rightarrow> bool" where
  "or_bool x d = (case x of None \<Rightarrow> d | Some b \<Rightarrow> if b then b else d)"

definition or_str :: "string option \<Rightarrow> string \<Rightarrow> string" where
  "or_str x d = (case x of None \<Rightarrow> d | Some s \<Rightarrow> if s \<noteq> [] then s else d)"

definition spread :: "'a option \<Rightarrow> 'a \<Rightarrow> 'a" where
  "spread x computed = (case x of None \<Rightarrow> computed | Some v \<Rightarrow> v)"

section \<open>SrvraStateManager\<close>

text \<open>
  \<open>historySize\<close> can also be passed with the value \<open>undefined\<close> (\<open>Some None\<close>): the
  key is then present, so the spread puts \<open>undefined\<close> over the default. \<open>own\<close> reads
  such a key (absent and \<open>undefined\<close> read alike).
\<close>

definition own :: "'a option option \<Rightarrow> 'a option" where
  "own x = (case x of None \<Rightarrow> None | Some v \<Rightarrow> v)"

record sm_options =
  o_historySize :: "int option option"
  o_mergeStrategy :: "string option"
  o_enableVersioning :: "bool option"
  o_autoSync :: "bool option"

record sm_config =
  historySize :: "int option"
  mergeStrategy :: string
  enableVersioning :: bool
  autoSync :: bool

definition no_sm_options :: sm_options where
  "no_sm_options = \<lparr>o_historySize = None, o_mergeStrategy = None,
     o_enableVersioning = None, o_autoSync = None\<rparr>"

definition SrvraStateManager_config :: "sm_options \<Rightarrow> sm_config" where
  "SrvraStateManager_config c =
     \<lparr>historySize = spread (o_historySize c) (Some (or_int (own (o_historySize c)) 50)),
      mergeStrategy = spread (o_mergeStrategy c) (or_str (o_mergeStrategy c) ''last-write-wins''),
      enableVersioning = spread (o_enableVersioning c) (or_bool (o_enableVersioning c) True),
      autoSync = spread (o_autoSync c) (or_bool (o_autoSync c) True)\<rparr>"

datatype priority = High | Normal | Low

text \<open>\<open>priorityMap = { high: 3, normal: 2, low: 1 }\<close>\<close>

fun priorityMap :: "priority \<Rightarrow> int" where
  "priorityMap High = 3"
| "priorityMap Normal = 2"
| "priorityMap Low = 1"

text \<open>
  The update object built by \<open>setState\<close>. Identifiers come from \<open>Date.now()\<close> and
  \<open>Math.random()\<close> in the source; here the clock reading and the identifier are
  arguments of the call.
\<close>

record ('k, 'v, 'm) update =
  u_id :: nat
  u_key :: 'k
  u_value :: 'v
  u_version :: nat
  u_timestamp :: int
  u_metadata :: "'m list"
  u_source :: string

record ('k, 'v, 'm) history_record = "('k, 'v, 'm) update" +
  previousValue :: "'v option"

text \<open>
  A subscriber: its callback is known to the store only by whether it returns
  (\<open>True\<close>) or throws (\<open>False\<close>) on a notification; \<open>s_filter = None\<close> is an absent
  filter.
\<close>

record ('k, 'v, 'm) subscriber =
  s_callback :: "'v \<Rightarrow> ('k, 'v, 'm) update \<Rightarrow> bool"
  s_filter :: "('v \<Rightarrow> ('k, 'v, 'm) update \<Rightarrow> bool) option"
  s_priority :: priority

text \<open>The \<open>options\<close> argument of \<open>setState\<close>: \<open>source\<close> and \<open>metadata\<close> (a list of
  entries), each possibly absent.\<close>

record 'm set_options =
  so_source :: "string option"
  so_metadata :: "'m list option"

record ('k, 'v, 'm) store =
  config :: sm_config
  state :: "('k \<times> 'v) list"
  history :: "('k, 'v, 'm) history_record list"
  subscribers :: "'k \<rightharpoonup> (nat \<times> ('k, 'v, 'm) subscriber) list"
  version :: nat

text \<open>
  A JavaScript \<open>Map\<close> iterates in insertion order: it is an association list with one
  entry per key. \<open>Map_set\<close> replaces the value of a present key where it stands and
  appends an absent one; \<open>map_of\<close> is \<open>Map.get\<close>.
\<close>

definition Map_set :: "('k \<times> 'v) list \<Rightarrow> 'k \<Rightarrow> 'v \<Rightarrow> ('k \<times> 'v) list" where
  "Map_set m k v =
     (if k \<in> set (map fst m) then map (\<lambda>(k', v'). if k' = k then (k', v) else (k', v')) m
      else m @ [(k, v)])"

definition SrvraStateManager :: "sm_options \<Rightarrow> ('k, 'v, 'm) store" where
  "SrvraStateManager c =
     \<lparr>config = SrvraStateManager_config c, state = [], history = [],
      subscribers = Map.empty, version = 0\<rparr>"

text \<open>\<open>history.push(...)\<close>, then one \<open>shift()\<close> when
  \<open>history.length > this.config.historySize\<close>. With \<open>historySize\<close> undefined the
  comparison is false for every length.\<close>

definition trackHistory ::
  "('k, 'v, 'm) update \<Rightarrow> 'v option \<Rightarrow> ('k, 'v, 'm) store \<Rightarrow> ('k, 'v, 'm) store" where
  "trackHistory upd prev s =
     (let h = history s @ [update.extend upd (history_record.fields prev)]
      in s\<lparr>history :=
            (case historySize (config s) of
               None \<Rightarrow> h
             | Some bound \<Rightarrow> if int (length h) > bound then tl h else h)\<rparr>)"

text \<open>
  \<open>notifySubscribers\<close>: the subscribers of the key, sorted by descending priority (the
  sort is stable, so equal priorities keep their registration order), each called
  unless its filter rejects. A callback that throws ends the \<open>forEach\<close>; the result
  lists the subscribers called and says whether all of them returned.
\<close>

fun callSubscribers ::
  "(nat \<times> ('k, 'v, 'm) subscriber) list \<Rightarrow> 'v \<Rightarrow> ('k, 'v, 'm) update \<Rightarrow> nat list \<times> bool" where
  "callSubscribers [] v upd = ([], True)"
| "callSubscribers ((i, sub) # rest) v upd =
     (if (case s_filter sub of None \<Rightarrow> True | Some f \<Rightarrow> f v upd)
      then (if s_callback sub v upd
            then (let (called, ok) = callSubscribers rest v upd in (i # called, ok))
            else ([i], False))
      else callSubscribers rest v upd)"

definition notifySubscribers ::
  "'k \<Rightarrow> 'v \<Rightarrow> ('k, 'v, 'm) update \<Rightarrow> ('k, 'v, 'm) store \<Rightarrow> nat list \<times> bool" where
  "notifySubscribers key v upd s =
     (case subscribers s key of
        None \<Rightarrow> ([], True)
      | Some subs \<Rightarrow>
          callSubscribers (sort_key (\<lambda>(i, sub). - priorityMap (s_priority sub)) subs) v upd)"

datatype error =
    TypeError string
  | CallbackError
  | UnknownStrategy string
  | ResolutionFailed nat

text \<open>
  \<open>setState\<close>: the result is the store after the call, the subscribers that were
  called, and the update id or the error of a throwing subscriber. The version, the
  history and the state map are written before any subscriber runs.
\<close>

definition setState ::
  "'k \<Rightarrow> 'v \<Rightarrow> 'm set_options \<Rightarrow> nat \<Rightarrow> int \<Rightarrow> ('k, 'v, 'm) store
     \<Rightarrow> ('k, 'v, 'm) store \<times> nat list \<times> (error + nat)" where
  "setState key v opts updateId now s =
     (let previous = map_of (state s) key;
          s1 = s\<lparr>version := version s + 1\<rparr>;
          upd = \<lparr>u_id = updateId, u_key = key, u_value = v, u_version = version s1,
                 u_timestamp = now,
                 u_metadata = (case so_metadata opts of None \<Rightarrow> [] | Some m \<Rightarrow> m),
                 u_source = or_str (so_source opts) ''client''\<rparr>;
          s2 = trackHistory upd previous s1;
          s3 = s2\<lparr>state := Map_set (state s2) key v\<rparr>;
          (called, ok) = notifySubscribers key v upd s3
      in (s3, called, if ok then Inr updateId else Inl CallbackError))"

text \<open>A call of \<open>setState\<close> with its arguments, and a sequence of calls on one store.\<close>

record ('k, 'v, 'm) set_call =
  c_key :: 'k
  c_value :: 'v
  c_options :: "'m set_options"
  c_updateId :: nat
  c_now :: int

definition after_setState :: "('k, 'v, 'm) set_call \<Rightarrow> ('k, 'v, 'm) store \<Rightarrow> ('k, 'v, 'm) store" where
  "after_setState c s = fst (setState (c_key c) (c_value c) (c_options c) (c_updateId c) (c_now c) s)"

fun setStates :: "('k, 'v, 'm) set_call list \<Rightarrow> ('k, 'v, 'm) store \<Rightarrow> ('k, 'v, 'm) store" where
  "setStates [] s = s"
| "setStates (c # cs) s = setStates cs (after_setState c s)"

definition subscribe ::
  "'k \<Rightarrow> nat \<Rightarrow> ('k, 'v, 'm) subscriber \<Rightarrow> ('k, 'v, 'm) store \<Rightarrow> ('k, 'v, 'm) store" where
  "subscribe key subscriberId sub s =
     s\<lparr>subscribers := (subscribers s)(key \<mapsto>
          (case subscribers s key of None \<Rightarrow> [] | Some subs \<Rightarrow> subs) @ [(subscriberId, sub)])\<rparr>"

section \<open>SrvraConflictResolver\<close>

text \<open>
  Values in conflict are tagged values: a scalar, a string, an array or an object (an
  association list in insertion order).
\<close>

datatype jsval =
    JUndef
  | JNull
  | JBool bool
  | JNum int
  | JStr string
  | JArr "jsval list"
  | JObj "(string \<times> jsval) list"

record cr_options =
  o_defaultStrategy :: "string option"
  o_maxRetries :: "int option"
  o_enableMergeRules :: "bool option"
  o_trackHistory :: "bool option"
  o_maxHistoryLength :: "int option"
  o_stringMergeDelimiter :: "string option"
  o_historySize' :: "int option"

text \<open>
  The constructor gives defaults to four keys only; \<open>maxHistoryLength\<close> and
  \<open>stringMergeDelimiter\<close> reach \<open>this.config\<close> through \<open>...config\<close> alone and are
  \<open>undefined\<close> (\<open>None\<close>) when the caller does not pass them. So does \<open>historySize\<close>,
  the key under which the configuration guide and \<open>DEFAULT_CONFLICT_CONFIG\<close> give the
  number of records to keep; the resolver never reads it.
\<close>

record cr_config =
  defaultStrategy :: string
  maxRetries :: int
  enableMergeRules :: bool
  trackHistory' :: bool
  maxHistoryLength :: "int option"
  stringMergeDelimiter :: "string option"
  historySize' :: "int option"

definition no_cr_options :: cr_options where
  "no_cr_options = \<lparr>o_defaultStrategy = None, o_maxRetries = None, o_enableMergeRules = None,
     o_trackHistory = None, o_maxHistoryLength = None, o_stringMergeDelimiter = None,
     o_historySize' = None\<rparr>"

text \<open>\<open>DEFAULT_CONFLICT_CONFIG\<close> of \<open>config.js\<close>, without its keys \<open>mergeStrategies\<close>,
  \<open>conflictTimeout\<close> and \<open>autoResolveThreshold\<close>, which no code reads.\<close>

definition DEFAULT_CONFLICT_CONFIG :: cr_options where
  "DEFAULT_CONFLICT_CONFIG = \<lparr>o_defaultStrategy = Some ''server-wins'', o_maxRetries = Some 3,
     o_enableMergeRules = Some True, o_trackHistory = Some True, o_maxHistoryLength = None,
     o_stringMergeDelimiter = None, o_historySize' = Some 100\<rparr>"

definition SrvraConflictResolver_config :: "cr_options \<Rightarrow> cr_config" where
  "SrvraConflictResolver_config c =
     \<lparr>defaultStrategy = spread (o_defaultStrategy c) (or_str (o_defaultStrategy c) ''server-wins''),
      maxRetries = spread (o_maxRetries c) (or_int (o_maxRetries c) 3),
      enableMergeRules = spread (o_enableMergeRules c) (or_bool (o_enableMergeRules c) True),
      trackHistory' = spread (o_trackHistory c) (or_bool (o_trackHistory c) True),
      maxHistoryLength = o_maxHistoryLength c,
      stringMergeDelimiter = o_stringMergeDelimiter c,
      historySize' = o_historySize' c\<rparr>"

record conflict =
  forcedStrategy :: "string option"
  dataType :: "string option"
  serverValue :: jsval
  clientValue :: jsval
  serverTimestamp :: "int option"
  clientTimestamp :: "int option"
  serverMetadata :: jsval
  clientMetadata :: jsval

text \<open>The result of a strategy: \<open>{ value, source, metadata }\<close>.\<close>

record 'v resolved =
  value' :: 'v
  source :: string
  metadata :: jsval

text \<open>
  The entries of the two registries: the bound methods that \<open>init\<close> registers, or a
  function registered by the caller. A registered function may throw.
\<close>

datatype merge_rule =
    MergeArrays
  | MergeObjects
  | MergeStrings
  | CustomRule "jsval \<Rightarrow> jsval \<Rightarrow> conflict \<Rightarrow> error + jsval resolved"

datatype strategy =
    ServerWins
  | ClientWins
  | LastWriteWins
  | AutoMerge
  | CustomStrategy "conflict \<Rightarrow> error + jsval resolved"

record resolution =
  originalConflict :: conflict
  timestamp :: int
  strategy :: string
  attempts :: nat

record tracked_resolution =
  t_timestamp :: int
  t_strategy :: string
  t_result :: "jsval resolved"
  t_conflict :: conflict

record resolver =
  r_config :: cr_config
  conflictHistory :: "tracked_resolution list"
  mergeRules :: "string \<rightharpoonup> merge_rule"
  customStrategies :: "string \<rightharpoonup> strategy"

definition registerDefaultStrategies :: "resolver \<Rightarrow> resolver" where
  "registerDefaultStrategies r =
     r\<lparr>customStrategies := (customStrategies r)
          (''server-wins'' \<mapsto> ServerWins, ''client-wins'' \<mapsto> ClientWins,
           ''last-write-wins'' \<mapsto> LastWriteWins, ''auto-merge'' \<mapsto> AutoMerge)\<rparr>"

definition registerDefaultMergeRules :: "resolver \<Rightarrow> resolver" where
  "registerDefaultMergeRules r =
     r\<lparr>mergeRules := (mergeRules r)
          (''array'' \<mapsto> MergeArrays, ''object'' \<mapsto> MergeObjects, ''string'' \<mapsto> MergeStrings)\<rparr>"

definition setupMergeRules :: "resolver \<Rightarrow> resolver" where
  "setupMergeRules r = (if enableMergeRules (r_config r) then registerDefaultMergeRules r else r)"

definition SrvraConflictResolver :: "cr_options \<Rightarrow> resolver" where
  "SrvraConflictResolver c =
     setupMergeRules (registerDefaultStrategies
       \<lparr>r_config = SrvraConflictResolver_config c, conflictHistory = [],
        mergeRules = Map.empty, customStrategies = Map.empty\<rparr>)"

definition registerCustomStrategy :: "string \<Rightarrow> strategy \<Rightarrow> resolver \<Rightarrow> resolver" where
  "registerCustomStrategy name strategyFn r =
     r\<lparr>customStrategies := (customStrategies r)(name \<mapsto> strategyFn)\<rparr>"

definition registerMergeRule :: "string \<Rightarrow> merge_rule \<Rightarrow> resolver \<Rightarrow> resolver" where
  "registerMergeRule dt ruleFn r = r\<lparr>mergeRules := (mergeRules r)(dt \<mapsto> ruleFn)\<rparr>"

text \<open>
  \<open>determineStrategy\<close>: a forced strategy (a non-empty name) first, then \<open>auto-merge\<close>
  when a merge rule is registered for the data type, then the default.
\<close>

definition determineStrategy :: "resolver \<Rightarrow> conflict \<Rightarrow> string" where
  "determineStrategy r c =
     (case forcedStrategy c of
        Some (x # xs) \<Rightarrow> x # xs
      | _ \<Rightarrow>
        (case dataType c of
           Some (d # ds) \<Rightarrow>
             (if mergeRules r (d # ds) \<noteq> None then ''auto-merge'' else defaultStrategy (r_config r))
         | _ \<Rightarrow> defaultStrategy (r_config r)))"

definition serverWinsStrategy :: "conflict \<Rightarrow> jsval resolved" where
  "serverWinsStrategy c =
     \<lparr>value' = serverValue c, source = ''server'', metadata = serverMetadata c\<rparr>"

definition clientWinsStrategy :: "conflict \<Rightarrow> jsval resolved" where
  "clientWinsStrategy c =
     \<lparr>value' = clientValue c, source = ''client'', metadata = clientMetadata c\<rparr>"

definition lastWriteWinsStrategy :: "conflict \<Rightarrow> jsval resolved" where
  "lastWriteWinsStrategy c =
     (let serverTime = or_int (serverTimestamp c) 0;
          clientTime = or_int (clientTimestamp c) 0
      in if serverTime \<ge> clientTime then serverWinsStrategy c else clientWinsStrategy c)"

text \<open>
  \<open>[...new Set(xs)]\<close>: a \<open>Set\<close> keeps the first occurrence of each element, in
  insertion order. Elements are compared with SameValueZero, which is equality on
  primitive values and identity on objects, so the element type stands for primitive
  values and object references.
\<close>

definition Set_add :: "'a list \<Rightarrow> 'a \<Rightarrow> 'a list" where
  "Set_add s x = (if x \<in> set s then s else s @ [x])"

definition new_Set :: "'a list \<Rightarrow> 'a list" where
  "new_Set xs = foldl Set_add [] xs"

definition mergeArrays :: "'a list \<Rightarrow> 'a list \<Rightarrow> 'a list resolved" where
  "mergeArrays serverArray clientArray =
     (let merged = new_Set (serverArray @ clientArray)
      in \<lparr>value' = merged, source = ''merged'',
          metadata = JObj [(''originalLength'',
                             JObj [(''server'', JNum (int (length serverArray))),
                                   (''client'', JNum (int (length clientArray)))]),
                           (''mergedLength'', JNum (int (length merged)))]\<rparr>)"

text \<open>
  The registered rules receive the two values of a conflict as they are, whatever
  their shape. A \<open>jsval\<close> is read as data that arrived by value: every array and
  object in it is an object of its own, a string holds ASCII characters, and a number
  is an integer that the source represents exactly.
\<close>

text \<open>The array rule's spread \<open>[...x]\<close>: the elements of an array, the characters of a
  string; any other value is not iterable.\<close>

definition iterate :: "jsval \<Rightarrow> error + jsval list" where
  "iterate v =
     (case v of
        JArr xs \<Rightarrow> Inr xs
      | JStr s \<Rightarrow> Inr (map (\<lambda>c. JStr [c]) s)
      | _ \<Rightarrow> Inl (TypeError ''value is not iterable''))"

text \<open>
  SameValueZero on the elements: equality on primitive values, identity on arrays and
  objects. Each array or object element is paired with its position in the
  concatenation, so that no two of them are the same.
\<close>

definition is_object :: "jsval \<Rightarrow> bool" where
  "is_object v = (case v of JArr xs \<Rightarrow> True | JObj ps \<Rightarrow> True | _ \<Rightarrow> False)"

definition with_identity :: "nat \<Rightarrow> jsval list \<Rightarrow> (jsval \<times> nat option) list" where
  "with_identity start xs =
     map (\<lambda>(i, x). (x, if is_object x then Some i else None)) (zip [start ..< start + length xs] xs)"

definition retag :: "('a \<Rightarrow> jsval) \<Rightarrow> 'a resolved \<Rightarrow> jsval resolved" where
  "retag tag res = \<lparr>value' = tag (value' res), source = source res, metadata = metadata res\<rparr>"

text \<open>\<open>mergeArrays\<close> as the registry calls it, on two values.\<close>

definition mergeArrays' :: "jsval \<Rightarrow> jsval \<Rightarrow> error + jsval resolved" where
  "mergeArrays' serverArray clientArray =
     (case iterate serverArray of
        Inl e \<Rightarrow> Inl e
      | Inr xs \<Rightarrow>
          (case iterate clientArray of
             Inl e \<Rightarrow> Inl e
           | Inr ys \<Rightarrow>
               Inr (retag (\<lambda>merged. JArr (map fst merged))
                      (mergeArrays (with_identity 0 xs) (with_identity (length xs) ys)))))"

text \<open>Decimal numerals, for the index keys of arrays and strings and for numbers in
  strings.\<close>

function show_nat :: "nat \<Rightarrow> string" where
  "show_nat n =
     (if n < 10 then [char_of (48 + n)] else show_nat (n div 10) @ [char_of (48 + n mod 10)])"
  by pat_completeness auto
termination
  by (relation "measure id") auto

definition show_int :: "int \<Rightarrow> string" where
  "show_int i = (if i < 0 then CHR ''-'' # show_nat (nat (- i)) else show_nat (nat i))"

definition is_digit :: "char \<Rightarrow> bool" where
  "is_digit c = (48 \<le> (of_char c :: nat) \<and> (of_char c :: nat) \<le> 57)"

definition digits_value :: "string \<Rightarrow> int" where
  "digits_value s = foldl (\<lambda>n c. 10 * n + (of_char c - 48)) 0 s"

text \<open>A key is an array index when it is the decimal numeral, without leading zeros, of
  an integer below \<open>2^32 - 1\<close>.\<close>

definition is_index :: "string \<Rightarrow> bool" where
  "is_index k = (k \<noteq> [] \<and> list_all is_digit k \<and> (k = ''0'' \<or> hd k \<noteq> CHR ''0'')
                 \<and> digits_value k < 4294967295)"

text \<open>
  Object spread \<open>{...x}\<close> copies the own enumerable properties of \<open>x\<close>: the properties
  of an object, the indexed elements of an array, the indexed characters of a string,
  and nothing of any other value. A later property replaces the value of an earlier one
  of the same key. An object lists its array-index keys first, in ascending order, then
  its other keys in insertion order.
\<close>

definition own_props :: "jsval \<Rightarrow> (string \<times> jsval) list" where
  "own_props v =
     (case v of
        JObj ps \<Rightarrow> ps
      | JArr xs \<Rightarrow> zip (map show_nat [0 ..< length xs]) xs
      | JStr s \<Rightarrow> zip (map show_nat [0 ..< length s]) (map (\<lambda>c. JStr [c]) s)
      | _ \<Rightarrow> [])"

fun assign :: "(string \<times> jsval) list \<Rightarrow> (string \<times> jsval) list \<Rightarrow> (string \<times> jsval) list" where
  "assign obj [] = obj"
| "assign obj ((k, v) # ps) = assign (Map_set obj k v) ps"

definition property_order :: "(string \<times> jsval) list \<Rightarrow> (string \<times> jsval) list" where
  "property_order ps =
     sort_key (\<lambda>(k, v). digits_value k) [p \<leftarrow> ps. is_index (fst p)]
       @ [p \<leftarrow> ps. \<not> is_index (fst p)]"

definition mergeObjects :: "int \<Rightarrow> jsval \<Rightarrow> jsval \<Rightarrow> jsval resolved" where
  "mergeObjects now serverObj clientObj =
     (let merged = property_order
            (assign (assign (assign [] (own_props serverObj)) (own_props clientObj))
               [(''_metadata'', JObj [(''mergedAt'', JNum now),
                                      (''sources'', JArr [JStr ''server'', JStr ''client''])])])
      in \<lparr>value' = JObj merged, source = ''merged'',
          metadata = JObj [(''fields'', JArr (map (\<lambda>(k, v). JStr k) merged))]\<rparr>)"

text \<open>
  \<open>[a, b].join(delimiter)\<close>: \<open>undefined\<close> and \<open>null\<close> contribute the empty string, every
  other element its string conversion (an array converts to its elements joined by
  commas, an object to \<open>[object Object]\<close>).
\<close>

fun join :: "string \<Rightarrow> string list \<Rightarrow> string" where
  "join sep [] = []"
| "join sep [x] = x"
| "join sep (x # y # ys) = x @ sep @ join sep (y # ys)"

fun toString :: "jsval \<Rightarrow> string" where
  "toString JUndef = ''undefined''"
| "toString JNull = ''null''"
| "toString (JBool b) = (if b then ''true'' else ''false'')"
| "toString (JNum i) = show_int i"
| "toString (JStr s) = s"
| "toString (JArr xs) =
     join '','' (map (\<lambda>x. if x = JUndef \<or> x = JNull then [] else toString x) xs)"
| "toString (JObj ps) = ''[object Object]''"

definition join_element :: "jsval \<Rightarrow> string" where
  "join_element x = (if x = JUndef \<or> x = JNull then [] else toString x)"

text \<open>The property read \<open>x.length\<close>: it throws on \<open>undefined\<close> and \<open>null\<close>, is the
  length of a string or an array, a property of an object, and \<open>undefined\<close> otherwise.\<close>

definition length_of :: "jsval \<Rightarrow> error + jsval" where
  "length_of v =
     (case v of
        JUndef \<Rightarrow> Inl (TypeError ''cannot read properties of undefined'')
      | JNull \<Rightarrow> Inl (TypeError ''cannot read properties of null'')
      | JStr s \<Rightarrow> Inr (JNum (int (length s)))
      | JArr xs \<Rightarrow> Inr (JNum (int (length xs)))
      | JObj ps \<Rightarrow> Inr (case map_of ps ''length'' of None \<Rightarrow> JUndef | Some l \<Rightarrow> l)
      | _ \<Rightarrow> Inr JUndef)"

definition mergeStrings :: "cr_config \<Rightarrow> jsval \<Rightarrow> jsval \<Rightarrow> error + jsval resolved" where
  "mergeStrings cf serverString clientString =
     (let v = JStr (join (or_str (stringMergeDelimiter cf) [CHR 0x0A])
                      [join_element serverString, join_element clientString])
      in case length_of serverString of
           Inl e \<Rightarrow> Inl e
         | Inr ls \<Rightarrow>
             (case length_of clientString of
                Inl e \<Rightarrow> Inl e
              | Inr lc \<Rightarrow>
                  Inr \<lparr>value' = v, source = ''merged'',
                       metadata = JObj [(''lengths'', JObj [(''server'', ls), (''client'', lc)])]\<rparr>))"

text \<open>A registered rule applied to the two values of a conflict.\<close>

definition applyMergeRule ::
  "cr_config \<Rightarrow> int \<Rightarrow> merge_rule \<Rightarrow> jsval \<Rightarrow> jsval \<Rightarrow> conflict \<Rightarrow> error + jsval resolved" where
  "applyMergeRule cf now rule a b c =
     (case rule of
        CustomRule f \<Rightarrow> f a b c
      | MergeArrays \<Rightarrow> mergeArrays' a b
      | MergeObjects \<Rightarrow> Inr (mergeObjects now a b)
      | MergeStrings \<Rightarrow> mergeStrings cf a b)"

text \<open>
  \<open>autoMergeStrategy\<close> reads the rule of the conflict's data type from the registry as
  it is when the strategy runs; calling an absent rule is a \<open>TypeError\<close>.
\<close>

definition autoMergeStrategy :: "resolver \<Rightarrow> int \<Rightarrow> conflict \<Rightarrow> error + jsval resolved" where
  "autoMergeStrategy r now c =
     (case (case dataType c of None \<Rightarrow> None | Some d \<Rightarrow> mergeRules r d) of
        None \<Rightarrow> Inl (TypeError ''mergeRule is not a function'')
      | Some rule \<Rightarrow> applyMergeRule (r_config r) now rule (serverValue c) (clientValue c) c)"

fun runStrategy :: "resolver \<Rightarrow> int \<Rightarrow> strategy \<Rightarrow> conflict \<Rightarrow> error + jsval resolved" where
  "runStrategy r now ServerWins c = Inr (serverWinsStrategy c)"
| "runStrategy r now ClientWins c = Inr (clientWinsStrategy c)"
| "runStrategy r now LastWriteWins c = Inr (lastWriteWinsStrategy c)"
| "runStrategy r now AutoMerge c = autoMergeStrategy r now c"
| "runStrategy r now (CustomStrategy f) c = f c"

definition applyStrategy :: "resolver \<Rightarrow> int \<Rightarrow> resolution \<Rightarrow> error + jsval resolved" where
  "applyStrategy r now res =
     (case customStrategies r (strategy res) of
        None \<Rightarrow> Inl (UnknownStrategy (strategy res))
      | Some st \<Rightarrow> runStrategy r now st (originalConflict res))"

text \<open>
  \<open>trackResolution\<close>: nothing when \<open>trackHistory\<close> is off; otherwise push, then one
  \<open>shift()\<close> when \<open>conflictHistory.length > this.config.maxHistoryLength\<close>. With
  \<open>maxHistoryLength\<close> undefined the comparison is false for every length.
\<close>

definition trackResolution :: "resolution \<Rightarrow> jsval resolved \<Rightarrow> resolver \<Rightarrow> resolver" where
  "trackResolution res result r =
     (if \<not> trackHistory' (r_config r) then r
      else
        (let h = conflictHistory r @
                   [\<lparr>t_timestamp = timestamp res, t_strategy = strategy res,
                     t_result = result, t_conflict = originalConflict res\<rparr>]
         in r\<lparr>conflictHistory :=
               (case maxHistoryLength (r_config r) of
                  None \<Rightarrow> h
                | Some bound \<Rightarrow> if int (length h) > bound then tl h else h)\<rparr>))"

text \<open>
  \<open>resolveConflict\<close> and \<open>handleResolutionError\<close> call each other. Each call of
  \<open>resolveConflict\<close> builds a new \<open>resolution\<close> object with \<open>attempts: 0\<close> and makes one
  attempt (one call of \<open>applyStrategy\<close>); \<open>handleResolutionError\<close> increments the
  counter of the object it is given and, below \<open>maxRetries\<close>, calls \<open>resolveConflict\<close>
  again with the original conflict. The first argument bounds the number of calls of
  \<open>resolveConflict\<close>, hence of attempts: \<open>None\<close> means that the call has not returned
  within that many attempts. The clock reading is an argument.
\<close>

definition handleResolutionError ::
  "(conflict \<Rightarrow> (resolver \<times> (error + jsval resolved)) option) \<Rightarrow> resolver \<Rightarrow> resolution \<Rightarrow> error
     \<Rightarrow> (resolver \<times> (error + jsval resolved)) option" where
  "handleResolutionError again r res e =
     (let res' = res\<lparr>attempts := attempts res + 1\<rparr>
      in if int (attempts res') < maxRetries (r_config r)
         then again (originalConflict res')
         else Some (r, Inl (ResolutionFailed (attempts res'))))"

fun resolveConflict ::
  "nat \<Rightarrow> int \<Rightarrow> conflict \<Rightarrow> resolver \<Rightarrow> (resolver \<times> (error + jsval resolved)) option" where
  "resolveConflict 0 now c r = None"
| "resolveConflict (Suc n) now c r =
     (let res = \<lparr>originalConflict = c, timestamp = now,
                 strategy = determineStrategy r c, attempts = 0\<rparr>
      in case applyStrategy r now res of
           Inr result \<Rightarrow> Some (trackResolution res result r, Inr result)
         | Inl e \<Rightarrow> handleResolutionError (\<lambda>c'. resolveConflict n now c' r) r res e)"

text \<open>A sequence of \<open>resolveConflict\<close> calls on one resolver; a caller keeps the resolver
  whether a call returns a resolution or throws.\<close>

fun resolveConflicts :: "nat \<Rightarrow> (int \<times> conflict) list \<Rightarrow> resolver \<Rightarrow> resolver option" where
  "resolveConflicts n [] r = Some r"
| "resolveConflicts n ((now, c) # cs) r =
     (case resolveConflict n now c r of
        None \<Rightarrow> None
      | Some (r', outcome) \<Rightarrow> resolveConflicts n cs r')"

section \<open>SrvraEventBus: delivery to one listener\<close>

record eb_options =
  o_maxListeners :: "int option"
  o_bufferSize :: "int option"
  o_deliveryTimeout :: "int option"
  o_priorityLevels :: "string list option"
  o_persistence :: "bool option"
  o_backpressureThreshold :: "int option"

record eb_config =
  maxListeners :: int
  bufferSize :: int
  deliveryTimeout :: int
  priorityLevels :: "string list"
  persistence :: bool
  backpressureThreshold :: int

definition no_eb_options :: eb_options where
  "no_eb_options = \<lparr>o_maxListeners = None, o_bufferSize = None, o_deliveryTimeout = None,
     o_priorityLevels = None, o_persistence = None, o_backpressureThreshold = None\<rparr>"

definition SrvraEventBus_config :: "eb_options \<Rightarrow> eb_config" where
  "SrvraEventBus_config c =
     \<lparr>maxListeners = spread (o_maxListeners c) (or_int (o_maxListeners c) 100),
      bufferSize = spread (o_bufferSize c) (or_int (o_bufferSize c) 1000),
      deliveryTimeout = spread (o_deliveryTimeout c) (or_int (o_deliveryTimeout c) 5000),
      priorityLevels = (case o_priorityLevels c of None \<Rightarrow> [''high'', ''normal'', ''low''] | Some ps \<Rightarrow> ps),
      persistence = spread (o_persistence c) (or_bool (o_persistence c) False),
      backpressureThreshold =
        spread (o_backpressureThreshold c) (or_int (o_backpressureThreshold c) 100)\<rparr>"

text \<open>
  The listener object that \<open>subscribe\<close> creates. The callback is asynchronous: the bus
  calls it and later learns that its promise has settled.
\<close>

record 'd listener =
  l_id :: nat
  l_priority :: priority
  l_filter :: "('d \<Rightarrow> bool) option"
  backpressure :: bool
  pending :: int

record 'd subscribe_options =
  so_priority :: "priority option"
  so_filter :: "('d \<Rightarrow> bool) option"
  so_backpressure :: "bool option"

definition new_listener :: "nat \<Rightarrow> 'd subscribe_options \<Rightarrow> 'd listener" where
  "new_listener listenerId opts =
     \<lparr>l_id = listenerId,
      l_priority = (case so_priority opts of None \<Rightarrow> Normal | Some p \<Rightarrow> p),
      l_filter = so_filter opts,
      backpressure = or_bool (so_backpressure opts) False,
      pending = 0\<rparr>"

text \<open>
  \<open>notifyListener\<close> is an \<open>async\<close> function: it runs without interruption up to an
  \<open>await\<close>, and other work of the single thread runs while it is suspended. A call
  for one delivery is therefore in one of these phases: suspended in
  \<open>waitForCapacity\<close>, suspended on the promise of the callback, returned after the
  callback settled, or returned at the filter without calling the callback.
  \<open>invokedAt\<close> records, for every call of the callback, the value of
  \<open>listener.pending\<close> at that moment.
\<close>

datatype phase = Waiting | InFlight | Completed | Skipped

record 'd delivery =
  payload :: 'd
  phase :: phase

record 'd listener_run =
  the_listener :: "'d listener"
  deliveries :: "'d delivery list"
  invokedAt :: "int list"

definition subscribed :: "'d listener \<Rightarrow> 'd listener_run" where
  "subscribed l = \<lparr>the_listener = l, deliveries = [], invokedAt = []\<rparr>"

definition set_phase :: "nat \<Rightarrow> phase \<Rightarrow> 'd delivery list \<Rightarrow> 'd delivery list" where
  "set_phase i ph ds = ds[i := \<lparr>payload = payload (ds ! i), phase = ph\<rparr>]"

text \<open>
  \<open>listener.filter && !listener.filter(event.data)\<close> is \<open>rejects\<close>. The part of
  \<open>notifyListener\<close> after the backpressure block: return when the filter rejects
  \<open>event.data\<close>, otherwise call the callback and await it. It runs either
  directly (no wait was needed) or as the continuation of \<open>waitForCapacity\<close>.
\<close>

definition rejects :: "'d listener \<Rightarrow> 'd \<Rightarrow> bool" where
  "rejects l d = (case l_filter l of None \<Rightarrow> False | Some f \<Rightarrow> \<not> f d)"

definition filterThenInvoke :: "nat \<Rightarrow> 'd listener_run \<Rightarrow> 'd listener_run" where
  "filterThenInvoke i st =
     (let l = the_listener st
      in if rejects l (payload (deliveries st ! i))
         then st\<lparr>deliveries := set_phase i Skipped (deliveries st)\<rparr>
         else st\<lparr>deliveries := set_phase i InFlight (deliveries st),
                 invokedAt := invokedAt st @ [pending l]\<rparr>)"

text \<open>
  A call \<open>notifyListener(listener, event)\<close> with \<open>event.data = d\<close>, up to its first
  suspension: increment \<open>pending\<close> for a backpressure listener; above the threshold,
  suspend in \<open>waitForCapacity\<close> (whose first check runs at once and fails for the
  same reason); otherwise go on to the filter.
\<close>

definition notifyListener :: "eb_config \<Rightarrow> 'd \<Rightarrow> 'd listener_run \<Rightarrow> 'd listener_run" where
  "notifyListener cf d st =
     (let l = the_listener st;
          i = length (deliveries st);
          l1 = (if backpressure l then l\<lparr>pending := pending l + 1\<rparr> else l);
          st1 = st\<lparr>the_listener := l1,
                   deliveries := deliveries st @ [\<lparr>payload = d, phase = Waiting\<rparr>]\<rparr>
      in if backpressure l1 \<and> pending l1 > backpressureThreshold cf
         then st1
         else filterThenInvoke i st1)"

text \<open>
  The timer of \<open>waitForCapacity\<close> fires for the waiting delivery \<open>i\<close>:
  \<open>checkCapacity\<close> resolves when \<open>pending <= backpressureThreshold\<close> (and
  \<open>notifyListener\<close> continues before anything else runs), or sets the timer again.
\<close>

definition checkCapacity :: "eb_config \<Rightarrow> nat \<Rightarrow> 'd listener_run \<Rightarrow> 'd listener_run" where
  "checkCapacity cf i st =
     (if i < length (deliveries st) \<and> phase (deliveries st ! i) = Waiting
         \<and> pending (the_listener st) \<le> backpressureThreshold cf
      then filterThenInvoke i st
      else st)"

text \<open>
  The callback's promise of delivery \<open>i\<close> settles (fulfilled, or rejected and handed
  to \<open>handleListenerError\<close>): the \<open>finally\<close> block decrements \<open>pending\<close> for a
  backpressure listener.
\<close>

definition callbackSettled :: "nat \<Rightarrow> 'd listener_run \<Rightarrow> 'd listener_run" where
  "callbackSettled i st =
     (if i < length (deliveries st) \<and> phase (deliveries st ! i) = InFlight
      then (let l = the_listener st
            in st\<lparr>the_listener := (if backpressure l then l\<lparr>pending := pending l - 1\<rparr> else l),
                   deliveries := set_phase i Completed (deliveries st)\<rparr>)
      else st)"

text \<open>
  What can happen to one listener of a bus: an event it is registered for is published
  with some data, a capacity timer fires, a callback settles; in any order.
\<close>

datatype 'd bus_action = Publish 'd | Timer nat | Settled nat

fun bus_step :: "eb_config \<Rightarrow> 'd listener_run \<Rightarrow> 'd bus_action \<Rightarrow> 'd listener_run" where
  "bus_step cf st (Publish d) = notifyListener cf d st"
| "bus_step cf st (Timer i) = checkCapacity cf i st"
| "bus_step cf st (Settled i) = callbackSettled i st"

definition bus_run :: "eb_config \<Rightarrow> 'd bus_action list \<Rightarrow> 'd listener_run \<Rightarrow> 'd listener_run" where
  "bus_run cf acts st = foldl (bus_step cf) st acts"

definition count_phase :: "phase \<Rightarrow> 'd listener_run \<Rightarrow> nat" where
  "count_phase ph st = length [x \<leftarrow> deliveries st. phase x = ph]"

text \<open>
  The invariant of the deliveries to a backpressure listener \<open>l\<close>: \<open>pending\<close> counts
  the deliveries that have not completed; every recorded call of the callback saw
  \<open>pending\<close> within the threshold; the deliveries in flight are within the threshold;
  the deliveries returned at the filter are those whose data the filter rejects.
\<close>

definition phases_ok :: "'d listener \<Rightarrow> 'd delivery \<Rightarrow> bool" where
  "phases_ok l x \<longleftrightarrow>
     (phase x = Skipped \<longrightarrow> rejects l (payload x))
   \<and> (phase x = InFlight \<or> phase x = Completed \<longrightarrow> \<not> rejects l (payload x))"

definition bp_inv :: "eb_config \<Rightarrow> 'd listener \<Rightarrow> 'd listener_run \<Rightarrow> bool" where
  "bp_inv cf l st \<longleftrightarrow>
     backpressure l
     \<and> the_listener st = l\<lparr>pending := int (length [x \<leftarrow> deliveries st. phase x \<noteq> Completed])\<rparr>
     \<and> (\<forall>p \<in> set (invokedAt st). p \<le> backpressureThreshold cf)
     \<and> int (count_phase InFlight st) \<le> max 0 (backpressureThreshold cf)
     \<and> (\<forall>x \<in> set (deliveries st). phases_ok l x)"

section \<open>SrvraDataSync\<close>

record ds_options =
  o_syncInterval :: "int option"
  o_retryAttempts :: "int option"
  o_batchSize :: "int option"
  o_enableDeltaUpdates :: "bool option"

record ds_config =
  syncInterval :: int
  retryAttempts :: int
  batchSize :: int
  enableDeltaUpdates :: bool

definition no_ds_options :: ds_options where
  "no_ds_options = \<lparr>o_syncInterval = None, o_retryAttempts = None, o_batchSize = None,
     o_enableDeltaUpdates = None\<rparr>"

definition SrvraDataSync_config :: "ds_options \<Rightarrow> ds_config" where
  "SrvraDataSync_config c =
     \<lparr>syncInterval = spread (o_syncInterval c) (or_int (o_syncInterval c) 30000),
      retryAttempts = spread (o_retryAttempts c) (or_int (o_retryAttempts c) 3),
      batchSize = spread (o_batchSize c) (or_int (o_batchSize c) 100),
      enableDeltaUpdates = spread (o_enableDeltaUpdates c) (or_bool (o_enableDeltaUpdates c) True)\<rparr>"

type_synonym js_store = "(string, jsval, string \<times> jsval) store"

text \<open>A change collected by \<open>collectChanges\<close>, and an item of the sync queue (the payload of
  a \<open>data-change\<close> event).\<close>

record change =
  ch_key :: string
  ch_value :: jsval
  ch_version :: nat
  ch_timestamp :: int

record queue_item =
  q_key :: string
  q_value :: jsval

record resolved_conflict =
  original :: conflict
  resolved_as :: "jsval resolved"

text \<open>The object that \<open>processBatches\<close> returns.\<close>

record sync_results =
  success :: "jsval list"
  conflicts :: "resolved_conflict list"
  errors :: "error list"

text \<open>
  The payload of a \<open>sync-complete\<close> event. Its \<open>changes\<close> property is untyped:
  \<open>sync\<close> publishes a number (\<open>changes.length\<close>), while \<open>handleSyncComplete\<close> uses it as
  an array of change objects (of which it reads the keys).
\<close>

datatype changes_field = ChangeCount nat | ChangeList "string list"

record sync_complete_data =
  d_timestamp :: int
  d_changes :: changes_field
  d_conflicts :: "resolved_conflict list"

record sync_stats =
  lastSuccessfulSync :: int
  changesProcessed :: changes_field
  conflictsResolved :: nat

record sync_success_data =
  ss_timestamp :: int
  ss_duration :: int
  ss_stats :: sync_stats
  ss_nextSyncScheduled :: int

datatype bus_event =
    SyncComplete sync_complete_data
  | SyncError error int
  | SyncSuccess sync_success_data

text \<open>
  \<open>sync\<close> is an \<open>async\<close> function that suspends once, at
  \<open>await this.processBatches(batches)\<close>. A suspended call is a frame that holds the
  call's local \<open>changes\<close> and \<open>batches\<close>. \<open>published\<close> is the sequence of events
  published on the instance's event bus by \<open>sync\<close>, \<open>handleSyncError\<close> and
  \<open>handleSyncComplete\<close>.
\<close>

record sync_frame =
  f_changes :: "change list"
  f_batches :: "change list list"

record datasync =
  ds_conf :: ds_config
  stateManager :: js_store
  conflictResolver :: resolver
  syncQueue :: "queue_item list"
  lastSyncTimestamp :: "int option"
  syncStats :: "sync_stats option"
  isSyncing :: bool
  syncAttempts :: "nat option"
  published :: "bus_event list"
  suspended :: "sync_frame list"

definition SrvraDataSync :: "ds_options \<Rightarrow> datasync" where
  "SrvraDataSync c =
     (let cf = SrvraDataSync_config c
      in \<lparr>ds_conf = cf,
          stateManager = SrvraStateManager no_sm_options,
          conflictResolver = SrvraConflictResolver
            (no_cr_options\<lparr>o_trackHistory := Some True, o_maxRetries := Some (retryAttempts cf)\<rparr>),
          syncQueue = [], lastSyncTimestamp = None, syncStats = None, isSyncing = False,
          syncAttempts = None, published = [], suspended = []\<rparr>)"

text \<open>\<open>getLastUpdate(key)\<close>: the last history record of the key, if any.\<close>

definition getLastUpdate ::
  "'k \<Rightarrow> ('k, 'v, 'm) store \<Rightarrow> ('k, 'v, 'm) history_record option" where
  "getLastUpdate key sm =
     (case [h \<leftarrow> history sm. u_key h = key] of [] \<Rightarrow> None | h # hs \<Rightarrow> Some (last (h # hs)))"

text \<open>
  \<open>hasChanged(key, value)\<close>: \<open>!lastSync || lastSync.version !== value.version\<close>. The
  property read \<open>value.version\<close> throws on \<open>undefined\<close> and \<open>null\<close>, is the property
  of an object, and is \<open>undefined\<close> on every other value.
\<close>

definition hasChanged :: "string \<Rightarrow> jsval \<Rightarrow> js_store \<Rightarrow> error + bool" where
  "hasChanged key v sm =
     (case getLastUpdate key sm of
        None \<Rightarrow> Inr True
      | Some lastSync \<Rightarrow>
          (case v of
             JUndef \<Rightarrow> Inl (TypeError ''cannot read properties of undefined'')
           | JNull \<Rightarrow> Inl (TypeError ''cannot read properties of null'')
           | JObj props \<Rightarrow> Inr (map_of props ''version'' \<noteq> Some (JNum (int (u_version lastSync))))
           | _ \<Rightarrow> Inr True))"

fun collectFrom :: "(string \<times> jsval) list \<Rightarrow> int \<Rightarrow> js_store \<Rightarrow> error + change list" where
  "collectFrom [] now sm = Inr []"
| "collectFrom ((key, v) # rest) now sm =
     (case hasChanged key v sm of
        Inl e \<Rightarrow> Inl e
      | Inr changed \<Rightarrow>
          (case collectFrom rest now sm of
             Inl e \<Rightarrow> Inl e
           | Inr cs \<Rightarrow>
               Inr (if changed
                    then \<lparr>ch_key = key, ch_value = v, ch_version = version sm,
                          ch_timestamp = now\<rparr> # cs
                    else cs)))"

definition collectChanges :: "int \<Rightarrow> datasync \<Rightarrow> error + change list" where
  "collectChanges now ds = collectFrom (state (stateManager ds)) now (stateManager ds)"

text \<open>\<open>Array.prototype.slice(start, end)\<close>, negative indices counting from the end.\<close>

definition slice :: "'a list \<Rightarrow> int \<Rightarrow> int \<Rightarrow> 'a list" where
  "slice xs start end' =
     (let len = int (length xs);
          k = (if start < 0 then max (len + start) 0 else min start len);
          e = (if end' < 0 then max (len + end') 0 else min end' len)
      in take (nat (e - k)) (drop (nat k) xs))"

text \<open>
  \<open>createBatches\<close>: \<open>for (let i = 0; i < changes.length; i += batchSize)\<close>. The loop
  need not end (a \<open>batchSize\<close> of 0 never advances \<open>i\<close>): not returning is \<open>None\<close>.
\<close>

partial_function (option) batchLoop ::
  "int \<Rightarrow> 'a list \<Rightarrow> int \<Rightarrow> 'a list list \<Rightarrow> 'a list list option" where
  "batchLoop bsize changes i batches =
     (if i < int (length changes)
      then batchLoop bsize changes (i + bsize) (batches @ [slice changes i (i + bsize)])
      else Some batches)"

declare batchLoop.simps [code]

definition createBatches :: "ds_config \<Rightarrow> 'a list \<Rightarrow> 'a list list option" where
  "createBatches cf changes = batchLoop (batchSize cf) changes 0 []"

definition publish :: "bus_event \<Rightarrow> datasync \<Rightarrow> datasync" where
  "publish ev ds = ds\<lparr>published := published ds @ [ev]\<rparr>"

definition handleSyncError :: "error \<Rightarrow> int \<Rightarrow> datasync \<Rightarrow> datasync" where
  "handleSyncError e now ds = publish (SyncError e now) ds"

text \<open>
  \<open>this.syncQueue.filter(item => !data.changes.some(change => change.key === item.key))\<close>:
  the predicate runs once per item, and \<open>some\<close> is not a function of a number.
\<close>

definition pruneQueue :: "queue_item list \<Rightarrow> changes_field \<Rightarrow> error + queue_item list" where
  "pruneQueue q changes =
     (if q = [] then Inr []
      else (case changes of
              ChangeCount n \<Rightarrow> Inl (TypeError ''data.changes.some is not a function'')
            | ChangeList keys \<Rightarrow> Inr [item \<leftarrow> q. q_key item \<notin> set keys]))"

text \<open>
  \<open>this.stateManager.setMetadata(key, meta)\<close>: the class \<open>SrvraStateManager\<close> defines no
  method of this name, so the call throws.
\<close>

definition setMetadata :: "string \<Rightarrow> 'a \<Rightarrow> js_store \<Rightarrow> error + js_store" where
  "setMetadata key meta sm = Inl (TypeError ''this.stateManager.setMetadata is not a function'')"

text \<open>
  \<open>handleSyncComplete(data)\<close>, the listener of \<open>sync-complete\<close>: the state it leaves, and
  the error it throws if it does not run to its end. (The optional \<open>onSyncComplete\<close>
  hook, which the class never sets, is left out.)
\<close>

definition handleSyncComplete ::
  "sync_complete_data \<Rightarrow> int \<Rightarrow> datasync \<Rightarrow> datasync \<times> error option" where
  "handleSyncComplete data now ds =
     (let stats = \<lparr>lastSuccessfulSync = d_timestamp data, changesProcessed = d_changes data,
                   conflictsResolved = length (d_conflicts data)\<rparr>;
          ds1 = ds\<lparr>lastSyncTimestamp := Some (d_timestamp data), syncStats := Some stats\<rparr>
      in case pruneQueue (syncQueue ds1) (d_changes data) of
           Inl e \<Rightarrow> (ds1, Some e)
         | Inr q \<Rightarrow>
             (let ds2 = ds1\<lparr>syncQueue := q\<rparr>
              in case setMetadata ''lastSync'' (d_timestamp data, ''success'', stats) (stateManager ds2) of
                   Inl e \<Rightarrow> (ds2, Some e)
                 | Inr sm \<Rightarrow>
                     (let ds3 = publish
                            (SyncSuccess \<lparr>ss_timestamp = d_timestamp data,
                               ss_duration = now - d_timestamp data, ss_stats = stats,
                               ss_nextSyncScheduled = now + syncInterval (ds_conf ds2)\<rparr>)
                            (ds2\<lparr>stateManager := sm\<rparr>)
                      in (ds3\<lparr>isSyncing := False, syncAttempts := Some 0\<rparr>, None))))"

text \<open>
  Publishing \<open>sync-complete\<close> on the bus calls its listener \<open>handleSyncComplete\<close> at
  once; the bus catches what the listener throws (\<open>notifyListener\<close> hands it to
  \<open>handleListenerError\<close>), so the publisher goes on.
\<close>

definition publishSyncComplete :: "sync_complete_data \<Rightarrow> int \<Rightarrow> datasync \<Rightarrow> datasync" where
  "publishSyncComplete data now ds = fst (handleSyncComplete data now (publish (SyncComplete data) ds))"

text \<open>
  A call of \<open>sync()\<close> up to its return or its suspension. \<open>None\<close>: \<open>createBatches\<close>
  does not return.
\<close>

definition sync :: "int \<Rightarrow> datasync \<Rightarrow> datasync option" where
  "sync now ds =
     (if isSyncing ds then Some ds
      else
        (let ds1 = ds\<lparr>isSyncing := True\<rparr>
         in case collectChanges now ds1 of
              Inl e \<Rightarrow> Some ((handleSyncError e now ds1)\<lparr>isSyncing := False\<rparr>)
            | Inr changes \<Rightarrow>
                if changes = [] then Some (ds1\<lparr>isSyncing := False\<rparr>)
                else (case createBatches (ds_conf ds1) changes of
                        None \<Rightarrow> None
                      | Some batches \<Rightarrow>
                          Some (ds1\<lparr>suspended := suspended ds1 @
                                  [\<lparr>f_changes = changes, f_batches = batches\<rparr>]\<rparr>))))"

text \<open>
  The suspended call \<open>i\<close> resumes: \<open>processBatches\<close> has returned \<open>results\<close> (it
  catches the failure of every batch, so it always returns). \<open>handleSyncResults\<close> is
  called next; the class does not define it, so its outcome is an argument: \<open>None\<close>
  when a method supplied by the host returns, \<open>Some e\<close> when the call throws (as it
  does, with a \<open>TypeError\<close>, when nothing is supplied). Then \<open>sync-complete\<close> is
  published, or \<open>sync-error\<close> from the \<open>catch\<close> block; \<open>finally\<close> clears the guard.
\<close>

definition sync_resume ::
  "nat \<Rightarrow> sync_results \<Rightarrow> error option \<Rightarrow> int \<Rightarrow> datasync \<Rightarrow> datasync" where
  "sync_resume i results handleSyncResults now ds =
     (if i < length (suspended ds)
      then
        (let changes = f_changes (suspended ds ! i);
             ds0 = ds\<lparr>suspended := take i (suspended ds) @ drop (Suc i) (suspended ds)\<rparr>;
             ds1 = (case handleSyncResults of
                      Some e \<Rightarrow> handleSyncError e now ds0
                    | None \<Rightarrow>
                        publishSyncComplete
                          \<lparr>d_timestamp = now, d_changes = ChangeCount (length changes),
                           d_conflicts = conflicts results\<rparr>
                          now (ds0\<lparr>lastSyncTimestamp := Some now\<rparr>))
         in ds1\<lparr>isSyncing := False\<rparr>)
      else ds)"

text \<open>
  \<open>handleDataChange\<close>, the listener of \<open>data-change\<close>: it puts the change on the sync
  queue and, when \<open>enableDeltaUpdates\<close> is on, calls \<open>processDeltaUpdate\<close>. The delta
  computation is not modelled: it either throws (the bus catches it) or ends, in
  \<open>applyDelta\<close>, with one \<open>setState\<close> on the state store; which of the two, and the
  written key and value, is an argument (\<open>None\<close>: no write).
\<close>

definition handleDataChange ::
  "queue_item \<Rightarrow> (string, jsval, string \<times> jsval) set_call option \<Rightarrow> datasync \<Rightarrow> datasync" where
  "handleDataChange item delta_write ds =
     (let ds1 = ds\<lparr>syncQueue := syncQueue ds @ [item]\<rparr>
      in if enableDeltaUpdates (ds_conf ds1)
         then (case delta_write of
                 None \<Rightarrow> ds1
               | Some c \<Rightarrow> ds1\<lparr>stateManager := after_setState c (stateManager ds1)\<rparr>)
         else ds1)"

text \<open>
  What happens to an instance over time: calls of \<open>sync()\<close> (by the interval timer or
  the host), suspended calls resuming, writes to the state store (by the host, or by
  \<open>processBatches\<close> applying a resolution while a call is suspended), \<open>data-change\<close>
  events; in any order.
\<close>

datatype ds_action =
    Sync int
  | Resume nat sync_results "error option" int
  | StoreWrite "(string, jsval, string \<times> jsval) set_call"
  | DataChange queue_item "(string, jsval, string \<times> jsval) set_call option"

fun ds_step :: "ds_action \<Rightarrow> datasync \<Rightarrow> datasync option" where
  "ds_step (Sync now) ds = sync now ds"
| "ds_step (Resume i results hsr now) ds = Some (sync_resume i results hsr now ds)"
| "ds_step (StoreWrite c) ds = Some (ds\<lparr>stateManager := after_setState c (stateManager ds)\<rparr>)"
| "ds_step (DataChange item delta_write) ds = Some (handleDataChange item delta_write ds)"

fun ds_run :: "ds_action list \<Rightarrow> datasync \<Rightarrow> datasync option" where
  "ds_run [] ds = Some ds"
| "ds_run (a # as) ds = (case ds_step a ds of None \<Rightarrow> None | Some ds' \<Rightarrow> ds_run as ds')"

text \<open>The \<open>sync-complete\<close> and \<open>sync-error\<close> events among the published ones.\<close>

fun is_sync_outcome :: "bus_event \<Rightarrow> bool" where
  "is_sync_outcome (SyncComplete d) = True"
| "is_sync_outcome (SyncError e t) = True"
| "is_sync_outcome (SyncSuccess d) = False"

section \<open>Concrete inputs\<close>

text \<open>A call \<open>setState('x', v)\<close> without options.\<close>

definition call_x :: "int \<Rightarrow> (string, int, unit) set_call" where
  "call_x v = \<lparr>c_key = ''x'', c_value = v,
     c_options = \<lparr>so_source = None, so_metadata = None\<rparr>, c_updateId = 0, c_now = 0\<rparr>"

text \<open>
  The options of a subscription with backpressure and a given filter, and a bus
  configuration whose backpressure threshold is 1.
\<close>

definition bp_opts :: "(int \<Rightarrow> bool) option \<Rightarrow> int subscribe_options" where
  "bp_opts f = \<lparr>so_priority = None, so_filter = f, so_backpressure = Some True\<rparr>"


text \<open>
  A conflict that forces \<open>'manual-resolve'\<close>, a name that \<open>SrvraConflictTypes\<close> exports
  (\<open>MANUAL_RESOLVE\<close>) and that no strategy is registered under; and a conflict that
  forces nothing and has no data type, so that the default strategy resolves it.
\<close>

definition manual_resolve_conflict :: conflict where
  "manual_resolve_conflict =
     \<lparr>forcedStrategy = Some ''manual-resolve'', dataType = None,
      serverValue = JNum 1, clientValue = JNum 2,
      serverTimestamp = None, clientTimestamp = None,
      serverMetadata = JUndef, clientMetadata = JUndef\<rparr>"

definition plain_conflict :: conflict where
  "plain_conflict =
     \<lparr>forcedStrategy = None, dataType = None,
      serverValue = JNum 1, clientValue = JNum 2,
      serverTimestamp = None, clientTimestamp = None,
      serverMetadata = JUndef, clientMetadata = JUndef\<rparr>"

text \<open>
  A write \<open>setState('x', 1)\<close> to the state store of a \<open>SrvraDataSync\<close>, the queue item of
  a \<open>data-change\<close> event for the same key, and the results of a cycle whose one batch
  the transport accepted.
\<close>

definition write_x :: "(string, jsval, string \<times> jsval) set_call" where
  "write_x = \<lparr>c_key = ''x'', c_value = JNum 1,
     c_options = \<lparr>so_source = None, so_metadata = None\<rparr>, c_updateId = 0, c_now = 0\<rparr>"

definition queued_x :: queue_item where
  "queued_x = \<lparr>q_key = ''x'', q_value = JNum 1\<rparr>"

definition accepted_x :: sync_results where
  "accepted_x = \<lparr>success = [JStr ''x''], conflicts = [], errors = []\<rparr>"

text \<open>The invariant of the busy guard: at most one call of \<open>sync\<close> is suspended, and the
  flag is set exactly while one is.\<close>

definition guard_inv :: "datasync \<Rightarrow> bool" where
  "guard_inv ds \<longleftrightarrow> length (suspended ds) \<le> 1 \<and> (isSyncing ds \<longleftrightarrow> suspended ds \<noteq> [])"

section \<open>Properties of the state store\<close>

lemma after_setState_version: "version (after_setState c s) = version s + 1"
  by (simp add: after_setState_def setState_def trackHistory_def Let_def split: prod.splits)

lemma after_setState_config: "config (after_setState c s) = config s"
  by (simp add: after_setState_def setState_def trackHistory_def Let_def split: prod.splits)

lemma after_setState_history:
  assumes "historySize (config s) = Some b" and "0 \<le> b"
    and "int (length (history s)) \<le> b"
  shows "int (length (history (after_setState c s))) \<le> b"
  using assms
  by (auto simp add: after_setState_def setState_def trackHistory_def Let_def split: prod.splits)

lemma setStates_config: "config (setStates cs s) = config s"
  by (induction cs arbitrary: s) (simp_all add: after_setState_config)

lemma setStates_version: "version (setStates cs s) = version s + length cs"
  by (induction cs arbitrary: s) (simp_all add: after_setState_version)

lemma setStates_history:
  assumes "historySize (config s) = Some b" and "0 \<le> b"
    and "int (length (history s)) \<le> b"
  shows "int (length (history (setStates cs s))) \<le> b"
  using assms
proof (induction cs arbitrary: s)
  case Nil
  then show ?case by simp
next
  case (Cons c cs)
  have "int (length (history (after_setState c s))) \<le> b"
    using Cons.prems by (rule after_setState_history)
  moreover have "historySize (config (after_setState c s)) = Some b"
    using Cons.prems by (simp add: after_setState_config)
  ultimately show ?case
    using Cons.IH [of "after_setState c s"] Cons.prems(2) by simp
qed

text \<open>With \<open>historySize\<close> undefined nothing is ever evicted.\<close>

lemma after_setState_history_undefined:
  "historySize (config s) = None \<Longrightarrow>
     length (history (after_setState c s)) = length (history s) + 1"
  by (simp add: after_setState_def setState_def trackHistory_def Let_def split: prod.splits)

lemma setStates_history_undefined:
  "historySize (config s) = None \<Longrightarrow>
     length (history (setStates cs s)) = length (history s) + length cs"
  by (induction cs arbitrary: s)
     (simp_all add: after_setState_history_undefined after_setState_config)

text \<open>
  Claim C1, as amended. After every sequence of \<open>setState\<close> calls on a new store (any
  keys, values and options), the version counter equals the number of calls made, and
  one more call raises it by exactly one; and when \<open>historySize\<close> is a number that is
  not negative, the history holds at most \<open>historySize\<close> records.
\<close>

theorem setState_version_history:
  "version (setStates calls (SrvraStateManager opts)) = length calls
   \<and> version (after_setState c (setStates calls (SrvraStateManager opts)))
        = version (setStates calls (SrvraStateManager opts)) + 1
   \<and> (historySize (config (setStates calls (SrvraStateManager opts))) = Some b \<and> 0 \<le> b \<longrightarrow>
        int (length (history (setStates calls (SrvraStateManager opts)))) \<le> b)"
proof -
  let ?s0 = "SrvraStateManager opts :: ('a, 'b, 'c) store"
  have h0: "history ?s0 = []" and v0: "version ?s0 = 0"
    by (simp_all add: SrvraStateManager_def)
  have "int (length (history (setStates calls ?s0))) \<le> b"
    if "historySize (config (setStates calls ?s0)) = Some b" and "0 \<le> b"
    using that by (intro setStates_history) (simp_all add: setStates_config h0)
  then show ?thesis
    by (simp add: setStates_version after_setState_version v0)
qed

theorem setState_version_history_witness:
  "historySize (config (setStates [call_x 1, call_x 2]
        (SrvraStateManager (no_sm_options\<lparr>o_historySize := Some (Some 1)\<rparr>)))) = Some 1
   \<and> (0::int) \<le> 1
   \<and> version (setStates [call_x 1, call_x 2]
        (SrvraStateManager (no_sm_options\<lparr>o_historySize := Some (Some 1)\<rparr>))) = 2
   \<and> length (history (setStates [call_x 1, call_x 2]
        (SrvraStateManager (no_sm_options\<lparr>o_historySize := Some (Some 1)\<rparr>)))) = 1
   \<and> int (length (history (setStates [call_x 1, call_x 2]
        (SrvraStateManager (no_sm_options\<lparr>o_historySize := Some (Some 1)\<rparr>))))) \<le> 1"
proof -
  let ?s = "setStates [call_x 1, call_x 2]
        (SrvraStateManager (no_sm_options\<lparr>o_historySize := Some (Some 1)\<rparr>))"
  have h: "historySize (config ?s) = Some 1"
    unfolding setStates_config
    by (simp add: SrvraStateManager_def SrvraStateManager_config_def no_sm_options_def
        spread_def)
  have l: "length (history ?s) = 1"
    by (simp add: after_setState_def setState_def trackHistory_def notifySubscribers_def
        SrvraStateManager_def SrvraStateManager_config_def no_sm_options_def spread_def
        call_x_def Let_def)
  note t = setState_version_history
    [of "[call_x 1, call_x 2]" "no_sm_options\<lparr>o_historySize := Some (Some 1)\<rparr>" "call_x 3" 1]
  have "version ?s = 2"
    using t by (simp del: setStates.simps)
  moreover have "int (length (history ?s)) \<le> 1"
    using t h by (simp del: setStates.simps)
  ultimately show ?thesis
    using h l by simp
qed

text \<open>
  Claim C1 as stated fails. With \<open>historySize: -1\<close> the history is empty after a call,
  and its length 0 exceeds \<open>historySize\<close>. With \<open>historySize: undefined\<close> the
  configuration holds no bound, and after 51 calls the history holds 51 records, more
  than the default of 50.
\<close>

theorem history_exceeds_historySize:
  "historySize (config (setStates [call_x 1]
        (SrvraStateManager (no_sm_options\<lparr>o_historySize := Some (Some (- 1))\<rparr>)))) = Some (- 1)
   \<and> length (history (setStates [call_x 1]
        (SrvraStateManager (no_sm_options\<lparr>o_historySize := Some (Some (- 1))\<rparr>)))) = 0
   \<and> \<not> int (length (history (setStates [call_x 1]
        (SrvraStateManager (no_sm_options\<lparr>o_historySize := Some (Some (- 1))\<rparr>))))) \<le> - 1
   \<and> historySize (config (setStates (replicate 51 (call_x 1))
        (SrvraStateManager (no_sm_options\<lparr>o_historySize := Some None\<rparr>)))) = None
   \<and> length (history (setStates (replicate 51 (call_x 1))
        (SrvraStateManager (no_sm_options\<lparr>o_historySize := Some None\<rparr>)))) = 51"
proof -
  let ?neg = "SrvraStateManager (no_sm_options\<lparr>o_historySize := Some (Some (- 1))\<rparr>)
                :: (string, int, unit) store"
  let ?und = "SrvraStateManager (no_sm_options\<lparr>o_historySize := Some None\<rparr>)
                :: (string, int, unit) store"
  have n: "historySize (config ?neg) = Some (- 1)" and u: "historySize (config ?und) = None"
    by (simp_all add: SrvraStateManager_def SrvraStateManager_config_def no_sm_options_def
        spread_def)
  have l: "length (history (setStates [call_x 1] ?neg)) = 0"
    by (simp add: after_setState_def setState_def trackHistory_def notifySubscribers_def
        SrvraStateManager_def SrvraStateManager_config_def no_sm_options_def spread_def
        call_x_def Let_def)
  have m: "length (history (setStates (replicate 51 (call_x 1)) ?und)) = 51"
    using setStates_history_undefined [OF u, of "replicate 51 (call_x 1)"]
    by (simp add: SrvraStateManager_def)
  show ?thesis
    unfolding setStates_config using n u l m by simp
qed

section \<open>Properties of the conflict resolver\<close>

text \<open>
  The registered rules on values of other shapes than their names say. The array rule
  keeps two objects of equal content apart, spreads a string into its characters and
  throws on \<open>null\<close>.
\<close>

lemma mergeArrays'_on_values:
  "mergeArrays' (JArr [JNum 1, JObj [(''a'', JNum 1)], JNum 2])
                (JArr [JNum 2, JObj [(''a'', JNum 1)], JNum 3])
     = Inr \<lparr>value' = JArr [JNum 1, JObj [(''a'', JNum 1)], JNum 2, JObj [(''a'', JNum 1)], JNum 3],
            source = ''merged'',
            metadata = JObj [(''originalLength'', JObj [(''server'', JNum 3), (''client'', JNum 3)]),
                             (''mergedLength'', JNum 5)]\<rparr>"
  "map_sum id value' (mergeArrays' (JStr ''aab'') (JArr [JStr ''b'', JStr ''c'']))
     = Inr (JArr [JStr ''a'', JStr ''b'', JStr ''c''])"
  "mergeArrays' (JArr []) JNull = Inl (TypeError ''value is not iterable'')"
  by code_simp+

text \<open>Object spread of an object with index keys, of \<open>null\<close> and of a string.\<close>

lemma mergeObjects_on_values:
  "mergeObjects 5 (JObj [(''b'', JNum 1), (''10'', JNum 2), (''2'', JNum 0)]) JNull
     = \<lparr>value' = JObj [(''2'', JNum 0), (''10'', JNum 2), (''b'', JNum 1),
                        (''_metadata'', JObj [(''mergedAt'', JNum 5),
                                              (''sources'', JArr [JStr ''server'', JStr ''client''])])],
        source = ''merged'',
        metadata = JObj [(''fields'', JArr [JStr ''2'', JStr ''10'', JStr ''b'', JStr ''_metadata''])]\<rparr>"
  "metadata (mergeObjects 5 (JObj [(''b'', JNum 1)]) (JStr ''hi''))
     = JObj [(''fields'', JArr [JStr ''0'', JStr ''1'', JStr ''b'', JStr ''_metadata''])]"
  by code_simp+

text \<open>The string rule on a number and on \<open>null\<close>.\<close>

lemma mergeStrings_on_values:
  "mergeStrings (SrvraConflictResolver_config no_cr_options) (JStr ''ab'') (JNum 5)
     = Inr \<lparr>value' = JStr (''ab'' @ [CHR 0x0A] @ ''5''), source = ''merged'',
            metadata = JObj [(''lengths'', JObj [(''server'', JNum 2), (''client'', JUndef)])]\<rparr>"
  "mergeStrings (SrvraConflictResolver_config no_cr_options) (JStr ''ab'') JNull
     = Inl (TypeError ''cannot read properties of null'')"
  by code_simp+

lemma foldl_Set_add_set: "set (foldl Set_add acc xs) = set acc \<union> set xs"
  by (induction xs arbitrary: acc) (auto simp: Set_add_def)

lemma foldl_Set_add_distinct: "distinct acc \<Longrightarrow> distinct (foldl Set_add acc xs)"
  by (induction xs arbitrary: acc) (auto simp: Set_add_def)

lemma foldl_Set_add_split:
  "foldl Set_add acc xs = acc @ foldl Set_add [] [x \<leftarrow> xs. x \<notin> set acc]"
proof (induction xs rule: rev_induct)
  case Nil
  then show ?case by simp
next
  case (snoc x xs)
  show ?case
  proof (cases "x \<in> set acc")
    case True
    then show ?thesis using snoc by (simp add: Set_add_def)
  next
    case False
    then show ?thesis using snoc by (simp add: Set_add_def foldl_Set_add_set)
  qed
qed

lemma foldl_Set_add_absorb: "set xs \<subseteq> set acc \<Longrightarrow> foldl Set_add acc xs = acc"
  by (induction xs arbitrary: acc) (auto simp: Set_add_def)

lemma new_Set_distinct_id: "distinct xs \<Longrightarrow> new_Set xs = xs"
  unfolding new_Set_def
proof (induction xs rule: rev_induct)
  case Nil
  then show ?case by simp
next
  case (snoc x xs)
  then show ?case by (simp add: Set_add_def)
qed

lemma new_Set_append:
  "new_Set (xs @ ys) = new_Set xs @ new_Set [y \<leftarrow> ys. y \<notin> set xs]"
proof -
  have "new_Set (xs @ ys) = foldl Set_add (new_Set xs) ys"
    by (simp add: new_Set_def)
  also have "\<dots> = new_Set xs @ foldl Set_add [] [y \<leftarrow> ys. y \<notin> set (new_Set xs)]"
    by (rule foldl_Set_add_split)
  finally show ?thesis
    by (simp add: new_Set_def foldl_Set_add_set)
qed

text \<open>The model of \<open>Set\<close> keeps first occurrences: it is the library's \<open>remdups\<close>
  (which keeps last occurrences) read from the other end.\<close>

lemma new_Set_first_occurrences: "new_Set xs = rev (remdups (rev xs))"
proof (induction xs rule: rev_induct)
  case Nil
  then show ?case by (simp add: new_Set_def)
next
  case (snoc x xs)
  have "new_Set (xs @ [x]) = Set_add (new_Set xs) x"
    by (simp add: new_Set_def)
  then show ?case
    using snoc by (auto simp: Set_add_def)
qed

text \<open>
  Claim C7. For all arrays \<open>A\<close> (server) and \<open>B\<close> (client), the value merged by the
  array rule is the server's elements in first-seen order followed by the client's
  elements that the server does not have, in first-seen order (for arrays without
  repetitions: \<open>A\<close> itself, followed by the elements of \<open>B\<close> that are not in
  \<open>A\<close>); its elements are exactly those of \<open>A\<close> and \<open>B\<close>, each once; and
  merging that value with \<open>B\<close> again returns it unchanged.
\<close>

theorem mergeArrays_union_idempotent:
  "value' (mergeArrays A B) = new_Set A @ new_Set [x \<leftarrow> B. x \<notin> set A]
   \<and> (distinct A \<and> distinct B \<longrightarrow> value' (mergeArrays A B) = A @ [x \<leftarrow> B. x \<notin> set A])
   \<and> set (value' (mergeArrays A B)) = set A \<union> set B
   \<and> distinct (value' (mergeArrays A B))
   \<and> value' (mergeArrays (value' (mergeArrays A B)) B) = value' (mergeArrays A B)"
proof -
  let ?R = "new_Set (A @ B)"
  have v: "value' (mergeArrays A B) = ?R"
    by (simp add: mergeArrays_def Let_def)
  have s: "set ?R = set A \<union> set B"
    by (simp add: new_Set_def foldl_Set_add_set)
  have d: "distinct ?R"
    by (simp add: new_Set_def foldl_Set_add_distinct)
  have "new_Set (?R @ B) = foldl Set_add (new_Set ?R) B"
    by (simp add: new_Set_def)
  also have "\<dots> = foldl Set_add ?R B"
    using d by (simp add: new_Set_distinct_id)
  also have "\<dots> = ?R"
    using s by (intro foldl_Set_add_absorb) auto
  finally have i: "value' (mergeArrays ?R B) = ?R"
    by (simp add: mergeArrays_def Let_def)
  have u: "distinct A \<and> distinct B \<longrightarrow> ?R = A @ [x \<leftarrow> B. x \<notin> set A]"
    by (simp add: new_Set_append new_Set_distinct_id)
  show ?thesis
    using v s d i u by (simp add: new_Set_append)
qed

theorem mergeArrays_union_idempotent_witness:
  "distinct [1, 2 :: int] \<and> distinct [2, 3 :: int]
   \<and> value' (mergeArrays [1, 2 :: int] [2, 3]) = [1, 2, 3]
   \<and> value' (mergeArrays (value' (mergeArrays [1, 2 :: int] [2, 3])) [2, 3]) = [1, 2, 3]"
proof -
  note t = mergeArrays_union_idempotent [of "[1, 2 :: int]" "[2, 3]"]
  have h: "distinct [1, 2 :: int] \<and> distinct [2, 3 :: int]"
    by simp
  then have "value' (mergeArrays [1, 2 :: int] [2, 3]) = [1, 2] @ [x \<leftarrow> [2, 3]. x \<notin> set [1, 2]]"
    using t by blast
  then have v: "value' (mergeArrays [1, 2 :: int] [2, 3]) = [1, 2, 3]"
    by simp
  have "value' (mergeArrays (value' (mergeArrays [1, 2 :: int] [2, 3])) [2, 3])
          = value' (mergeArrays [1, 2 :: int] [2, 3])"
    using t by blast
  then show ?thesis
    using h by (simp only: v simp_thms)
qed

text \<open>
  Claim C8. For every conflict whose server and client timestamps are equal (or both
  absent), last-write-wins returns what server-wins returns: the server value, with
  source \<open>'server'\<close>.
\<close>

theorem lastWriteWins_tie_favours_server:
  "serverTimestamp c = clientTimestamp c \<Longrightarrow>
     lastWriteWinsStrategy c = serverWinsStrategy c
     \<and> value' (lastWriteWinsStrategy c) = serverValue c
     \<and> source (lastWriteWinsStrategy c) = ''server''
     \<and> runStrategy r now LastWriteWins c = Inr (serverWinsStrategy c)"
  by (simp add: lastWriteWinsStrategy_def serverWinsStrategy_def Let_def)

theorem lastWriteWins_tie_favours_server_witness:
  "serverTimestamp (plain_conflict\<lparr>serverTimestamp := Some 7, clientTimestamp := Some 7\<rparr>)
     = clientTimestamp (plain_conflict\<lparr>serverTimestamp := Some 7, clientTimestamp := Some 7\<rparr>)
   \<and> value' (lastWriteWinsStrategy
        (plain_conflict\<lparr>serverTimestamp := Some 7, clientTimestamp := Some 7\<rparr>)) = JNum 1
   \<and> source (lastWriteWinsStrategy
        (plain_conflict\<lparr>serverTimestamp := Some 7, clientTimestamp := Some 7\<rparr>)) = ''server''"
  using lastWriteWins_tie_favours_server
    [of "plain_conflict\<lparr>serverTimestamp := Some 7, clientTimestamp := Some 7\<rparr>"]
  by (simp add: plain_conflict_def serverWinsStrategy_def)

lemma resolveConflict_failing_never_returns:
  assumes "applyStrategy r now
      \<lparr>originalConflict = c, timestamp = now, strategy = determineStrategy r c, attempts = 0\<rparr> = Inl e"
    and "2 \<le> maxRetries (r_config r)"
  shows "resolveConflict n now c r = None"
proof (induction n)
  case 0
  then show ?case by simp
next
  case (Suc n)
  then show ?case
    using assms by (simp add: handleResolutionError_def Let_def)
qed

text \<open>With \<open>maxRetries\<close> at most 1 the first failed attempt is the last.\<close>

lemma resolveConflict_failing_single_attempt:
  assumes "applyStrategy r now
      \<lparr>originalConflict = c, timestamp = now, strategy = determineStrategy r c, attempts = 0\<rparr> = Inl e"
    and "maxRetries (r_config r) \<le> 1"
  shows "resolveConflict (Suc n) now c r = Some (r, Inl (ResolutionFailed 1))"
  using assms by (simp add: handleResolutionError_def Let_def)

lemma default_resolver_config:
  "r_config (SrvraConflictResolver no_cr_options) =
     \<lparr>defaultStrategy = ''server-wins'', maxRetries = 3, enableMergeRules = True,
      trackHistory' = True, maxHistoryLength = None, stringMergeDelimiter = None,
      historySize' = None\<rparr>"
  by (simp add: SrvraConflictResolver_def setupMergeRules_def registerDefaultMergeRules_def
      registerDefaultStrategies_def SrvraConflictResolver_config_def no_cr_options_def
      spread_def or_str_def or_int_def or_bool_def)

lemma default_resolver_strategies:
  "customStrategies (SrvraConflictResolver c) =
     [''server-wins'' \<mapsto> ServerWins, ''client-wins'' \<mapsto> ClientWins,
      ''last-write-wins'' \<mapsto> LastWriteWins, ''auto-merge'' \<mapsto> AutoMerge]"
  by (simp add: SrvraConflictResolver_def setupMergeRules_def registerDefaultMergeRules_def
      registerDefaultStrategies_def)

text \<open>
  Claim C2, at the default configuration (\<open>maxRetries = 3\<close>) and a conflict that forces
  the unregistered strategy \<open>'manual-resolve'\<close>: every attempt fails with the
  unknown-strategy error, and for every number \<open>n\<close> of attempts the call has not
  returned: each retry starts from a new \<open>resolution\<close> object whose counter is 0, so
  the counter never reaches \<open>maxRetries\<close> and the failure error is never raised.
\<close>

theorem resolveConflict_unknown_strategy_unbounded:
  "maxRetries (r_config (SrvraConflictResolver no_cr_options)) = 3
   \<and> applyStrategy (SrvraConflictResolver no_cr_options) now
        \<lparr>originalConflict = manual_resolve_conflict, timestamp = now,
         strategy = determineStrategy (SrvraConflictResolver no_cr_options) manual_resolve_conflict,
         attempts = 0\<rparr> = Inl (UnknownStrategy ''manual-resolve'')
   \<and> resolveConflict n now manual_resolve_conflict (SrvraConflictResolver no_cr_options) = None"
proof -
  let ?r = "SrvraConflictResolver no_cr_options"
  have a: "applyStrategy ?r now
        \<lparr>originalConflict = manual_resolve_conflict, timestamp = now,
         strategy = determineStrategy ?r manual_resolve_conflict,
         attempts = 0\<rparr> = Inl (UnknownStrategy ''manual-resolve'')"
    by (simp add: applyStrategy_def determineStrategy_def manual_resolve_conflict_def
        default_resolver_strategies)
  have m: "maxRetries (r_config ?r) = 3"
    by (simp add: default_resolver_config)
  have "resolveConflict n now manual_resolve_conflict ?r = None"
    using a m by (intro resolveConflict_failing_never_returns) simp_all
  with a m show ?thesis by simp
qed

lemma resolveConflicts_untracked_growth:
  assumes "maxHistoryLength (r_config r) = None"
    and "trackHistory' (r_config r)"
    and "defaultStrategy (r_config r) = ''server-wins''"
    and "customStrategies r ''server-wins'' = Some ServerWins"
  shows "resolveConflicts (Suc 0) (replicate n (now, plain_conflict)) r =
     Some (r\<lparr>conflictHistory := conflictHistory r @ replicate n
        \<lparr>t_timestamp = now, t_strategy = ''server-wins'',
         t_result = serverWinsStrategy plain_conflict, t_conflict = plain_conflict\<rparr>\<rparr>)"
  using assms
proof (induction n arbitrary: r)
  case 0
  then show ?case by simp
next
  case (Suc n)
  let ?e = "\<lparr>t_timestamp = now, t_strategy = ''server-wins'',
         t_result = serverWinsStrategy plain_conflict, t_conflict = plain_conflict\<rparr>"
  let ?r1 = "r\<lparr>conflictHistory := conflictHistory r @ [?e]\<rparr>"
  have d: "determineStrategy r plain_conflict = ''server-wins''"
    using Suc.prems by (simp add: determineStrategy_def plain_conflict_def)
  have one: "resolveConflict (Suc 0) now plain_conflict r =
      Some (?r1, Inr (serverWinsStrategy plain_conflict))"
    using Suc.prems d by (simp add: applyStrategy_def trackResolution_def Let_def)
  have "resolveConflicts (Suc 0) (replicate n (now, plain_conflict)) ?r1 =
     Some (?r1\<lparr>conflictHistory := conflictHistory ?r1 @ replicate n ?e\<rparr>)"
    using Suc.prems by (intro Suc.IH) simp_all
  then show ?case
    using one by (simp add: replicate_app_Cons_same)
qed

text \<open>When the caller does configure \<open>maxHistoryLength\<close>, the log stays within it.\<close>

lemma trackResolution_bounded:
  assumes "maxHistoryLength (r_config r) = Some b" and "0 \<le> b"
    and "int (length (conflictHistory r)) \<le> b"
  shows "int (length (conflictHistory (trackResolution res result r))) \<le> b"
  using assms by (auto simp: trackResolution_def Let_def)

lemma resolver_of_DEFAULT_CONFLICT_CONFIG:
  "r_config (SrvraConflictResolver DEFAULT_CONFLICT_CONFIG) =
     \<lparr>defaultStrategy = ''server-wins'', maxRetries = 3, enableMergeRules = True,
      trackHistory' = True, maxHistoryLength = None, stringMergeDelimiter = None,
      historySize' = Some 100\<rparr>"
  by (simp add: SrvraConflictResolver_def setupMergeRules_def registerDefaultMergeRules_def
      registerDefaultStrategies_def SrvraConflictResolver_config_def DEFAULT_CONFLICT_CONFIG_def
      spread_def or_str_def or_int_def or_bool_def)

lemma new_resolver_history: "conflictHistory (SrvraConflictResolver c) = []"
  by (simp add: SrvraConflictResolver_def setupMergeRules_def registerDefaultMergeRules_def
      registerDefaultStrategies_def)

lemma resolver_of_SrvraDataSync:
  "r_config (conflictResolver (SrvraDataSync no_ds_options)) =
     \<lparr>defaultStrategy = ''server-wins'', maxRetries = 3, enableMergeRules = True,
      trackHistory' = True, maxHistoryLength = None, stringMergeDelimiter = None,
      historySize' = None\<rparr>"
  by (simp add: SrvraDataSync_def SrvraDataSync_config_def no_ds_options_def Let_def
      SrvraConflictResolver_def setupMergeRules_def registerDefaultMergeRules_def
      registerDefaultStrategies_def SrvraConflictResolver_config_def no_cr_options_def
      spread_def or_str_def or_int_def or_bool_def)

lemma resolver_of_SrvraDataSync_parts:
  "customStrategies (conflictResolver (SrvraDataSync c)) ''server-wins'' = Some ServerWins"
  "conflictHistory (conflictResolver (SrvraDataSync c)) = []"
  by (simp_all add: SrvraDataSync_def Let_def default_resolver_strategies new_resolver_history)

text \<open>
  Claim C6, at the default configuration, at \<open>DEFAULT_CONFLICT_CONFIG\<close> (which asks for
  a history of 100 records) and at the resolver that \<open>SrvraDataSync\<close> builds: the
  constructor leaves \<open>maxHistoryLength\<close> undefined, and after \<open>n\<close> resolved conflicts
  the resolution history holds \<open>n\<close> records, for every \<open>n\<close>: nothing is evicted.
\<close>

theorem conflictHistory_unbounded_by_default:
  "maxHistoryLength (r_config (SrvraConflictResolver no_cr_options)) = None
   \<and> map_option (\<lambda>r. length (conflictHistory r))
        (resolveConflicts 1 (replicate n (now, plain_conflict)) (SrvraConflictResolver no_cr_options))
      = Some n
   \<and> maxHistoryLength (r_config (SrvraConflictResolver DEFAULT_CONFLICT_CONFIG)) = None
   \<and> map_option (\<lambda>r. length (conflictHistory r))
        (resolveConflicts 1 (replicate n (now, plain_conflict))
           (SrvraConflictResolver DEFAULT_CONFLICT_CONFIG))
      = Some n
   \<and> maxHistoryLength (r_config (conflictResolver (SrvraDataSync no_ds_options))) = None
   \<and> map_option (\<lambda>r. length (conflictHistory r))
        (resolveConflicts 1 (replicate n (now, plain_conflict))
           (conflictResolver (SrvraDataSync no_ds_options)))
      = Some n"
  by (simp add: resolveConflicts_untracked_growth default_resolver_config
      resolver_of_DEFAULT_CONFLICT_CONFIG default_resolver_strategies new_resolver_history
      resolver_of_SrvraDataSync resolver_of_SrvraDataSync_parts)

section \<open>Properties of delivery with backpressure\<close>

lemma length_set_phase [simp]: "length (set_phase i ph ds) = length ds"
  by (simp add: set_phase_def)

lemma count_update:
  "i < length ds \<Longrightarrow>
     int (length (filter P (ds[i := y]))) =
       int (length (filter P ds)) - (if P (ds ! i) then 1 else 0) + (if P y then 1 else 0)"
proof (induction ds arbitrary: i)
  case Nil
  then show ?case by simp
next
  case (Cons x ds)
  show ?case
  proof (cases i)
    case 0
    then show ?thesis by simp
  next
    case (Suc j)
    then have "j < length ds" using Cons.prems by simp
    from Cons.IH [OF this] show ?thesis using Suc by (auto split: if_splits)
  qed
qed

lemma count_mono:
  "(\<And>x. x \<in> set xs \<Longrightarrow> P x \<Longrightarrow> Q x) \<Longrightarrow> length (filter P xs) \<le> length (filter Q xs)"
  by (induction xs) auto

lemma ball_update: "\<forall>x \<in> set ds. Q x \<Longrightarrow> Q y \<Longrightarrow> \<forall>x \<in> set (ds[i := y]). Q x"
  using set_update_subset_insert [of ds i y] by fastforce

lemma rejects_pending [simp]: "rejects (l\<lparr>pending := p\<rparr>) d = rejects l d"
  by (simp add: rejects_def)

lemma bp_inv_subscribed:
  "backpressure l \<Longrightarrow> pending l = 0 \<Longrightarrow> bp_inv cf l (subscribed l)"
  by (simp add: bp_inv_def subscribed_def count_phase_def)

lemma bp_inv_filterThenInvoke:
  assumes bp: "backpressure l"
    and pe: "the_listener st = l\<lparr>pending := int (length [x \<leftarrow> deliveries st. phase x \<noteq> Completed])\<rparr>"
    and iv: "\<forall>p \<in> set (invokedAt st). p \<le> backpressureThreshold cf"
    and fl: "int (count_phase InFlight st) \<le> max 0 (backpressureThreshold cf)"
    and ok: "\<forall>x \<in> set (deliveries st). phases_ok l x"
    and i: "i < length (deliveries st)" and w: "phase (deliveries st ! i) = Waiting"
    and cap: "pending (the_listener st) \<le> backpressureThreshold cf"
  shows "bp_inv cf l (filterThenInvoke i st)"
proof (cases "rejects l (payload (deliveries st ! i))")
  case True
  let ?ds = "set_phase i Skipped (deliveries st)"
  have c: "int (length [x \<leftarrow> ?ds. phase x \<noteq> Completed])
         = int (length [x \<leftarrow> deliveries st. phase x \<noteq> Completed])"
    using i w by (simp add: set_phase_def count_update)
  have f: "int (length [x \<leftarrow> ?ds. phase x = InFlight])
         = int (length [x \<leftarrow> deliveries st. phase x = InFlight])"
    using i w by (simp add: set_phase_def count_update)
  have p: "\<forall>x \<in> set ?ds. phases_ok l x"
    unfolding set_phase_def using ok True by (intro ball_update) (simp_all add: phases_ok_def)
  have e: "filterThenInvoke i st = st\<lparr>deliveries := ?ds\<rparr>"
    using True pe by (simp add: filterThenInvoke_def Let_def)
  show ?thesis
    unfolding e bp_inv_def using bp pe iv fl c f p by (simp add: count_phase_def)
next
  case False
  let ?ds = "set_phase i InFlight (deliveries st)"
  have c: "int (length [x \<leftarrow> ?ds. phase x \<noteq> Completed])
         = int (length [x \<leftarrow> deliveries st. phase x \<noteq> Completed])"
    using i w by (simp add: set_phase_def count_update)
  have "length [x \<leftarrow> ?ds. phase x = InFlight] \<le> length [x \<leftarrow> ?ds. phase x \<noteq> Completed]"
    by (rule count_mono) simp
  then have f: "int (length [x \<leftarrow> ?ds. phase x = InFlight]) \<le> backpressureThreshold cf"
    using c cap pe by simp
  have p: "\<forall>x \<in> set ?ds. phases_ok l x"
    unfolding set_phase_def using ok False by (intro ball_update) (simp_all add: phases_ok_def)
  have e: "filterThenInvoke i st =
      st\<lparr>deliveries := ?ds, invokedAt := invokedAt st @ [pending (the_listener st)]\<rparr>"
    using False pe by (simp add: filterThenInvoke_def Let_def)
  show ?thesis
    unfolding e bp_inv_def using bp pe iv cap c f p by (simp add: count_phase_def)
qed

lemma bp_inv_notifyListener:
  assumes "bp_inv cf l st"
  shows "bp_inv cf l (notifyListener cf d st)"
proof -
  let ?l1 = "(the_listener st)\<lparr>pending := pending (the_listener st) + 1\<rparr>"
  let ?st1 = "st\<lparr>the_listener := ?l1,
                  deliveries := deliveries st @ [\<lparr>payload = d, phase = Waiting\<rparr>]\<rparr>"
  have bp: "backpressure l" and bp': "backpressure (the_listener st)"
    and pe: "the_listener st = l\<lparr>pending := int (length [x \<leftarrow> deliveries st. phase x \<noteq> Completed])\<rparr>"
    and iv: "\<forall>p \<in> set (invokedAt st). p \<le> backpressureThreshold cf"
    and fl: "int (count_phase InFlight st) \<le> max 0 (backpressureThreshold cf)"
    and ok: "\<forall>x \<in> set (deliveries st). phases_ok l x"
    using assms by (simp_all add: bp_inv_def)
  have pe1: "the_listener ?st1 =
      l\<lparr>pending := int (length [x \<leftarrow> deliveries ?st1. phase x \<noteq> Completed])\<rparr>"
    using pe by simp
  have iv1: "\<forall>p \<in> set (invokedAt ?st1). p \<le> backpressureThreshold cf"
    using iv by simp
  have fl1: "int (count_phase InFlight ?st1) \<le> max 0 (backpressureThreshold cf)"
    using fl by (simp add: count_phase_def)
  have ok1: "\<forall>x \<in> set (deliveries ?st1). phases_ok l x"
    using ok by (simp add: phases_ok_def)
  show ?thesis
  proof (cases "pending ?l1 > backpressureThreshold cf")
    case True
    then have "notifyListener cf d st = ?st1"
      using bp' by (simp add: notifyListener_def Let_def)
    then show ?thesis
      using bp pe1 iv1 fl1 ok1 by (simp add: bp_inv_def)
  next
    case False
    then have e: "notifyListener cf d st = filterThenInvoke (length (deliveries st)) ?st1"
      using bp' by (simp add: notifyListener_def Let_def)
    show ?thesis
      unfolding e using bp pe1 iv1 fl1 ok1 False
      by (intro bp_inv_filterThenInvoke) simp_all
  qed
qed

lemma bp_inv_checkCapacity:
  assumes "bp_inv cf l st"
  shows "bp_inv cf l (checkCapacity cf i st)"
proof (cases "i < length (deliveries st) \<and> phase (deliveries st ! i) = Waiting
         \<and> pending (the_listener st) \<le> backpressureThreshold cf")
  case True
  then have "checkCapacity cf i st = filterThenInvoke i st"
    by (simp add: checkCapacity_def)
  moreover have "bp_inv cf l (filterThenInvoke i st)"
  proof (rule bp_inv_filterThenInvoke)
    show "backpressure l"
      and "the_listener st = l\<lparr>pending := int (length [x \<leftarrow> deliveries st. phase x \<noteq> Completed])\<rparr>"
      and "\<forall>p \<in> set (invokedAt st). p \<le> backpressureThreshold cf"
      and "int (count_phase InFlight st) \<le> max 0 (backpressureThreshold cf)"
      and "\<forall>x \<in> set (deliveries st). phases_ok l x"
      using assms by (simp_all add: bp_inv_def)
    show "i < length (deliveries st)" and "phase (deliveries st ! i) = Waiting"
      and "pending (the_listener st) \<le> backpressureThreshold cf"
      using True by simp_all
  qed
  ultimately show ?thesis by simp
next
  case False
  then have "checkCapacity cf i st = st"
    by (auto simp add: checkCapacity_def)
  then show ?thesis using assms by simp
qed

lemma bp_inv_callbackSettled:
  assumes "bp_inv cf l st"
  shows "bp_inv cf l (callbackSettled i st)"
proof (cases "i < length (deliveries st) \<and> phase (deliveries st ! i) = InFlight")
  case True
  let ?ds = "set_phase i Completed (deliveries st)"
  have bp: "backpressure l" and bp': "backpressure (the_listener st)"
    and pe: "the_listener st = l\<lparr>pending := int (length [x \<leftarrow> deliveries st. phase x \<noteq> Completed])\<rparr>"
    and iv: "\<forall>p \<in> set (invokedAt st). p \<le> backpressureThreshold cf"
    and fl: "int (count_phase InFlight st) \<le> max 0 (backpressureThreshold cf)"
    and ok: "\<forall>x \<in> set (deliveries st). phases_ok l x"
    using assms by (simp_all add: bp_inv_def)
  have c: "int (length [x \<leftarrow> ?ds. phase x \<noteq> Completed])
         = int (length [x \<leftarrow> deliveries st. phase x \<noteq> Completed]) - 1"
    using True by (simp add: set_phase_def count_update)
  have f: "int (length [x \<leftarrow> ?ds. phase x = InFlight])
         = int (length [x \<leftarrow> deliveries st. phase x = InFlight]) - 1"
    using True by (simp add: set_phase_def count_update)
  have "phases_ok l (deliveries st ! i)"
    using ok True by simp
  then have "phases_ok l \<lparr>payload = payload (deliveries st ! i), phase = Completed\<rparr>"
    using True by (simp add: phases_ok_def)
  then have p: "\<forall>x \<in> set ?ds. phases_ok l x"
    unfolding set_phase_def using ok by (intro ball_update)
  have e: "callbackSettled i st =
      st\<lparr>the_listener := (the_listener st)\<lparr>pending := pending (the_listener st) - 1\<rparr>,
         deliveries := ?ds\<rparr>"
    using True bp' by (simp add: callbackSettled_def Let_def)
  have pe1: "the_listener (callbackSettled i st) =
      l\<lparr>pending := int (length [x \<leftarrow> ?ds. phase x \<noteq> Completed])\<rparr>"
    unfolding e c using pe by simp
  show ?thesis
    unfolding bp_inv_def using bp pe1 iv fl f p by (simp add: e count_phase_def)
next
  case False
  then have "callbackSettled i st = st"
    by (auto simp add: callbackSettled_def)
  then show ?thesis using assms by simp
qed

lemma bp_inv_step: "bp_inv cf l st \<Longrightarrow> bp_inv cf l (bus_step cf st a)"
  by (cases a) (simp_all add: bp_inv_notifyListener bp_inv_checkCapacity bp_inv_callbackSettled)

lemma bp_inv_run: "bp_inv cf l st \<Longrightarrow> bp_inv cf l (bus_run cf acts st)"
  unfolding bus_run_def by (induction acts arbitrary: st) (simp_all add: bp_inv_step)

lemma new_listener_backpressure:
  "so_backpressure opts = Some True \<Longrightarrow> backpressure (new_listener lid opts)"
  by (simp add: new_listener_def or_bool_def)

lemma reachable_bp_inv:
  assumes "so_backpressure opts = Some True"
  shows "bp_inv cf (new_listener lid opts) (bus_run cf acts (subscribed (new_listener lid opts)))"
  using assms
  by (intro bp_inv_run bp_inv_subscribed new_listener_backpressure) (simp_all add: new_listener_def)



text \<open>
  Claim C9. For a listener subscribed with backpressure and a filter \<open>f\<close>, after every
  sequence of publishes, capacity timers and settled callbacks: \<open>pending\<close> is the
  number of deliveries that have not completed; a delivery whose data the filter
  rejects is never in flight and never completes, so \<open>pending\<close> is never below the
  number of rejected deliveries, and equals it once nothing waits or is in flight; and
  a further delivery of rejected data raises \<open>pending\<close> by one without a call of the
  callback.
\<close>

theorem filter_rejection_leaks_pending:
  fixes cf :: eb_config and opts :: "'d subscribe_options" and acts lid
  defines "st \<equiv> bus_run cf acts (subscribed (new_listener lid opts))"
  assumes "so_backpressure opts = Some True" and "so_filter opts = Some f"
  shows "pending (the_listener st) = int (length [x \<leftarrow> deliveries st. phase x \<noteq> Completed])
       \<and> list_all (\<lambda>x. f (payload x) \<or> phase x = Waiting \<or> phase x = Skipped) (deliveries st)
       \<and> int (length [x \<leftarrow> deliveries st. \<not> f (payload x)]) \<le> pending (the_listener st)
       \<and> (count_phase Waiting st = 0 \<and> count_phase InFlight st = 0 \<longrightarrow>
            pending (the_listener st) = int (length [x \<leftarrow> deliveries st. \<not> f (payload x)]))
       \<and> (\<not> f d \<longrightarrow>
            pending (the_listener (notifyListener cf d st)) = pending (the_listener st) + 1
            \<and> invokedAt (notifyListener cf d st) = invokedAt st
            \<and> count_phase InFlight (notifyListener cf d st) = count_phase InFlight st)"
proof -
  let ?l = "new_listener lid opts"
  have inv: "bp_inv cf ?l st"
    unfolding st_def using assms(2) by (rule reachable_bp_inv)
  have rj: "rejects ?l x = (\<not> f x)" for x
    using assms(3) by (simp add: rejects_def new_listener_def)
  have bp: "backpressure (the_listener st)" and lf: "l_filter (the_listener st) = Some f"
    using inv assms(3) by (simp_all add: bp_inv_def new_listener_def)
  have ok: "\<forall>x \<in> set (deliveries st). phases_ok ?l x"
    using inv by (simp add: bp_inv_def)
  have a: "pending (the_listener st) = int (length [x \<leftarrow> deliveries st. phase x \<noteq> Completed])"
    using inv by (simp add: bp_inv_def)
  have b: "list_all (\<lambda>x. f (payload x) \<or> phase x = Waiting \<or> phase x = Skipped) (deliveries st)"
    unfolding list_all_iff
  proof
    fix x assume "x \<in> set (deliveries st)"
    then have "phases_ok ?l x" using ok by simp
    then show "f (payload x) \<or> phase x = Waiting \<or> phase x = Skipped"
      by (cases "phase x") (simp_all add: phases_ok_def rj)
  qed
  have "length [x \<leftarrow> deliveries st. \<not> f (payload x)]
          \<le> length [x \<leftarrow> deliveries st. phase x \<noteq> Completed]"
    using b by (intro count_mono) (auto simp: list_all_iff)
  then have c: "int (length [x \<leftarrow> deliveries st. \<not> f (payload x)]) \<le> pending (the_listener st)"
    using a by simp
  have d: "count_phase Waiting st = 0 \<and> count_phase InFlight st = 0 \<longrightarrow>
            pending (the_listener st) = int (length [x \<leftarrow> deliveries st. \<not> f (payload x)])"
  proof
    assume idle: "count_phase Waiting st = 0 \<and> count_phase InFlight st = 0"
    have "[x \<leftarrow> deliveries st. phase x \<noteq> Completed] = [x \<leftarrow> deliveries st. \<not> f (payload x)]"
    proof (rule filter_cong [OF refl])
      fix x assume x: "x \<in> set (deliveries st)"
      then have p: "phases_ok ?l x" using ok by simp
      have "phase x \<noteq> Waiting" and "phase x \<noteq> InFlight"
        using idle x by (auto simp: count_phase_def filter_empty_conv)
      then show "(phase x \<noteq> Completed) = (\<not> f (payload x))"
        using p by (cases "phase x") (simp_all add: phases_ok_def rj)
    qed
    then show "pending (the_listener st) = int (length [x \<leftarrow> deliveries st. \<not> f (payload x)])"
      using a by simp
  qed
  have e: "\<not> f d \<longrightarrow>
            pending (the_listener (notifyListener cf d st)) = pending (the_listener st) + 1
            \<and> invokedAt (notifyListener cf d st) = invokedAt st
            \<and> count_phase InFlight (notifyListener cf d st) = count_phase InFlight st"
    using bp lf
    by (simp add: notifyListener_def filterThenInvoke_def rejects_def set_phase_def
        count_phase_def Let_def)
  show ?thesis
    using a b c d e by blast
qed

theorem filter_rejection_leaks_pending_witness:
  "so_backpressure (bp_opts (Some (\<lambda>d. 0 < d))) = Some True
   \<and> so_filter (bp_opts (Some (\<lambda>d. 0 < d))) = Some (\<lambda>d. 0 < d)
   \<and> count_phase Waiting (bus_run (SrvraEventBus_config no_eb_options)
        [Publish 0, Publish 5, Publish 0, Settled 1]
        (subscribed (new_listener 0 (bp_opts (Some (\<lambda>d. 0 < d)))))) = 0
   \<and> count_phase InFlight (bus_run (SrvraEventBus_config no_eb_options)
        [Publish 0, Publish 5, Publish 0, Settled 1]
        (subscribed (new_listener 0 (bp_opts (Some (\<lambda>d. 0 < d)))))) = 0
   \<and> pending (the_listener (bus_run (SrvraEventBus_config no_eb_options)
        [Publish 0, Publish 5, Publish 0, Settled 1]
        (subscribed (new_listener 0 (bp_opts (Some (\<lambda>d. 0 < d))))))) = 2"
proof -
  let ?f = "\<lambda>d::int. 0 < d"
  let ?st = "bus_run (SrvraEventBus_config no_eb_options)
        [Publish 0, Publish 5, Publish 0, Settled 1]
        (subscribed (new_listener 0 (bp_opts (Some ?f))))"
  have h1: "so_backpressure (bp_opts (Some ?f)) = Some True"
    and h2: "so_filter (bp_opts (Some ?f)) = Some ?f"
    by (simp_all add: bp_opts_def)
  have w: "count_phase Waiting ?st = 0" and i: "count_phase InFlight ?st = 0"
    and r: "length [x \<leftarrow> deliveries ?st. \<not> ?f (payload x)] = 2"
    by code_simp+
  have "pending (the_listener ?st) = int (length [x \<leftarrow> deliveries ?st. \<not> ?f (payload x)])"
    using filter_rejection_leaks_pending [OF h1 h2, of "SrvraEventBus_config no_eb_options"
        "[Publish 0, Publish 5, Publish 0, Settled 1]" 0 0] w i
    by blast
  then show ?thesis
    using h1 h2 w i r by simp
qed

section \<open>Properties of the sync cycle\<close>

lemma batchLoop_returns:
  assumes "0 < b"
  shows "\<exists>bs. batchLoop b xs i acc = Some bs"
proof (induction "nat (int (length xs) - i)" arbitrary: i acc rule: less_induct)
  case less
  show ?case
  proof (cases "i < int (length xs)")
    case True
    have "nat (int (length xs) - (i + b)) < nat (int (length xs) - i)"
      using True assms by simp
    from less [OF this] obtain bs where
      "batchLoop b xs (i + b) (acc @ [slice xs i (i + b)]) = Some bs" by blast
    then show ?thesis
      using True by (subst batchLoop.simps) simp
  next
    case False
    then show ?thesis by (subst batchLoop.simps) simp
  qed
qed

lemma createBatches_returns:
  "0 < batchSize cf \<Longrightarrow> \<exists>bs. createBatches cf xs = Some bs"
  by (simp add: createBatches_def batchLoop_returns)

lemma handleSyncComplete_fields:
  "suspended (fst (handleSyncComplete data now ds)) = suspended ds"
  "ds_conf (fst (handleSyncComplete data now ds)) = ds_conf ds"
  "stateManager (fst (handleSyncComplete data now ds)) = stateManager ds"
  "filter is_sync_outcome (published (fst (handleSyncComplete data now ds)))
     = filter is_sync_outcome (published ds)"
  by (simp_all add: handleSyncComplete_def setMetadata_def Let_def split: sum.splits)

text \<open>\<open>handleSyncComplete\<close> never runs to its end, and a numeric \<open>changes\<close> leaves the
  sync queue as it was.\<close>

lemma handleSyncComplete_throws: "snd (handleSyncComplete data now ds) \<noteq> None"
  by (simp add: handleSyncComplete_def setMetadata_def Let_def split: sum.splits)

lemma handleSyncComplete_count_keeps_queue:
  "d_changes data = ChangeCount n \<Longrightarrow> syncQueue (fst (handleSyncComplete data now ds)) = syncQueue ds"
  by (cases "syncQueue ds")
     (simp_all add: handleSyncComplete_def setMetadata_def pruneQueue_def Let_def split: sum.splits)

lemma handleDataChange_fields:
  "isSyncing (handleDataChange item w ds) = isSyncing ds"
  "suspended (handleDataChange item w ds) = suspended ds"
  "ds_conf (handleDataChange item w ds) = ds_conf ds"
  "published (handleDataChange item w ds) = published ds"
  by (simp_all add: handleDataChange_def Let_def split: option.splits)

lemma sync_resume_fields:
  "ds_conf (sync_resume i results hsr now ds) = ds_conf ds"
  by (simp add: sync_resume_def Let_def handleSyncError_def publish_def publishSyncComplete_def
      handleSyncComplete_fields split: option.splits)

lemma sync_resume_guard:
  assumes "guard_inv ds"
  shows "guard_inv (sync_resume i results hsr now ds)"
proof (cases "i < length (suspended ds)")
  case True
  then have "i = 0" and "length (suspended ds) = 1"
    using assms by (simp_all add: guard_inv_def)
  then show ?thesis
    by (simp add: guard_inv_def sync_resume_def Let_def handleSyncError_def publish_def
        publishSyncComplete_def handleSyncComplete_fields split: option.splits)
next
  case False
  then show ?thesis using assms by (simp add: sync_resume_def)
qed

lemma sync_resume_outcome:
  assumes "i < length (suspended ds)"
  shows "length (filter is_sync_outcome (published (sync_resume i results hsr now ds)))
           = length (filter is_sync_outcome (published ds)) + 1"
    and "\<not> isSyncing (sync_resume i results hsr now ds)"
  using assms
  by (simp_all add: sync_resume_def Let_def handleSyncError_def publish_def
        publishSyncComplete_def handleSyncComplete_fields split: option.splits)

lemma sync_guard_step:
  assumes "guard_inv ds" and "0 < batchSize (ds_conf ds)"
  shows "\<exists>ds'. sync now ds = Some ds' \<and> guard_inv ds' \<and> ds_conf ds' = ds_conf ds
     \<and> length (filter is_sync_outcome (published ds'))
          \<le> length (filter is_sync_outcome (published ds)) + 1"
proof (cases "isSyncing ds")
  case True
  then show ?thesis using assms by (simp add: sync_def)
next
  case False
  then have e: "suspended ds = []" using assms by (simp add: guard_inv_def)
  show ?thesis
  proof (cases "collectChanges now (ds\<lparr>isSyncing := True\<rparr>)")
    case (Inl err)
    then show ?thesis
      using False e by (simp add: sync_def Let_def guard_inv_def handleSyncError_def publish_def)
  next
    case (Inr changes)
    show ?thesis
    proof (cases "changes = []")
      case True
      then show ?thesis
        using False e Inr by (simp add: sync_def Let_def guard_inv_def)
    next
      case ne: False
      obtain bs where "createBatches (ds_conf ds) changes = Some bs"
        using createBatches_returns [OF assms(2)] by blast
      then show ?thesis
        using False e Inr ne by (simp add: sync_def Let_def guard_inv_def)
    qed
  qed
qed

lemma ds_step_guard:
  assumes "guard_inv ds" and "0 < batchSize (ds_conf ds)"
  shows "\<exists>ds'. ds_step a ds = Some ds' \<and> guard_inv ds' \<and> ds_conf ds' = ds_conf ds"
proof (cases a)
  case (Sync now)
  then show ?thesis using sync_guard_step [OF assms, of now] by auto
next
  case (Resume i results hsr now)
  then show ?thesis using assms by (simp add: sync_resume_guard sync_resume_fields)
next
  case (StoreWrite c)
  then show ?thesis using assms by (simp add: guard_inv_def)
next
  case (DataChange item delta_write)
  then show ?thesis
    using assms by (simp add: guard_inv_def handleDataChange_fields)
qed

lemma ds_run_guard:
  assumes "guard_inv ds" and "0 < batchSize (ds_conf ds)"
  shows "\<exists>ds'. ds_run acts ds = Some ds' \<and> guard_inv ds' \<and> ds_conf ds' = ds_conf ds"
  using assms
proof (induction acts arbitrary: ds)
  case Nil
  then show ?case by simp
next
  case (Cons a acts)
  obtain ds1 where s: "ds_step a ds = Some ds1" and g: "guard_inv ds1"
    and c: "ds_conf ds1 = ds_conf ds"
    using ds_step_guard [OF Cons.prems] by blast
  from Cons.IH [of ds1] g c Cons.prems(2) obtain ds' where
    "ds_run acts ds1 = Some ds'" "guard_inv ds'" "ds_conf ds' = ds_conf ds1"
    by auto
  then show ?case using s c by simp
qed

lemma guard_inv_new: "guard_inv (SrvraDataSync opts)"
  by (simp add: guard_inv_def SrvraDataSync_def Let_def)

lemma sync_keeps_guard:
  assumes "guard_inv ds" and "sync now ds = Some ds'"
  shows "guard_inv ds'"
proof (cases "isSyncing ds")
  case True
  then show ?thesis using assms by (simp add: sync_def)
next
  case False
  then have e: "suspended ds = []" using assms(1) by (simp add: guard_inv_def)
  show ?thesis
    using assms(2) False e
    by (auto simp add: sync_def Let_def guard_inv_def handleSyncError_def publish_def
        split: sum.splits if_splits option.splits)
qed

lemma ds_step_keeps_guard:
  assumes "guard_inv ds" and "ds_step a ds = Some ds'"
  shows "guard_inv ds'"
proof (cases a)
  case (Sync now)
  then show ?thesis using assms sync_keeps_guard by auto
next
  case (Resume i results hsr now)
  then show ?thesis using assms sync_resume_guard by auto
next
  case (StoreWrite c)
  then show ?thesis using assms by (auto simp add: guard_inv_def)
next
  case (DataChange item delta_write)
  then show ?thesis
    using assms by (auto simp add: guard_inv_def handleDataChange_fields)
qed

lemma ds_run_keeps_guard:
  assumes "guard_inv ds" and "ds_run acts ds = Some ds'"
  shows "guard_inv ds'"
  using assms
proof (induction acts arbitrary: ds)
  case Nil
  then show ?case by simp
next
  case (Cons a acts)
  then obtain ds1 where s: "ds_step a ds = Some ds1" and r: "ds_run acts ds1 = Some ds'"
    by (auto split: option.splits)
  have "guard_inv ds1"
    using Cons.prems(1) s by (rule ds_step_keeps_guard)
  then show ?case using r by (rule Cons.IH)
qed

text \<open>
  Claim C4. Every sequence of \<open>sync()\<close> calls, resumptions, store writes and
  data-change events on a new instance runs to its end when \<open>batchSize\<close> is positive,
  and whenever it does so it leaves at most one call of \<open>sync\<close> suspended, with
  \<open>isSyncing\<close> set exactly while one is. In such a state: while the flag is set, a
  call of \<open>sync()\<close> returns with the instance unchanged (nothing is published), and the
  cycle in progress ends with the flag clear, no call suspended and exactly one more
  \<open>sync-complete\<close> or \<open>sync-error\<close> event, whatever \<open>processBatches\<close> returned and
  whether \<open>handleSyncResults\<close> threw; and every call of \<open>sync()\<close> that returns leaves
  the flag set exactly if it suspended: an early return and a caught error clear it.
\<close>

theorem sync_single_cycle_guard:
  "(0 < batchSize (SrvraDataSync_config opts) \<longrightarrow>
      (\<exists>ds. ds_run acts (SrvraDataSync opts) = Some ds))
   \<and> (\<forall>ds. ds_run acts (SrvraDataSync opts) = Some ds \<longrightarrow>
        length (suspended ds) \<le> 1
      \<and> (isSyncing ds \<longleftrightarrow> suspended ds \<noteq> [])
      \<and> (isSyncing ds \<longrightarrow>
           sync now ds = Some ds
         \<and> \<not> isSyncing (sync_resume 0 results hsr now' ds)
         \<and> suspended (sync_resume 0 results hsr now' ds) = []
         \<and> length (filter is_sync_outcome (published (sync_resume 0 results hsr now' ds)))
              = length (filter is_sync_outcome (published ds)) + 1)
      \<and> (\<forall>ds'. sync now ds = Some ds' \<longrightarrow>
           length (suspended ds') \<le> 1 \<and> (isSyncing ds' \<longleftrightarrow> suspended ds' \<noteq> [])))"
proof -
  have c0: "ds_conf (SrvraDataSync opts) = SrvraDataSync_config opts"
    by (simp add: SrvraDataSync_def Let_def)
  have ret: "0 < batchSize (SrvraDataSync_config opts) \<longrightarrow>
      (\<exists>ds. ds_run acts (SrvraDataSync opts) = Some ds)"
    using ds_run_guard [OF guard_inv_new, of opts acts] c0 by auto
  have inv: "length (suspended ds) \<le> 1
      \<and> (isSyncing ds \<longleftrightarrow> suspended ds \<noteq> [])
      \<and> (isSyncing ds \<longrightarrow>
           sync now ds = Some ds
         \<and> \<not> isSyncing (sync_resume 0 results hsr now' ds)
         \<and> suspended (sync_resume 0 results hsr now' ds) = []
         \<and> length (filter is_sync_outcome (published (sync_resume 0 results hsr now' ds)))
              = length (filter is_sync_outcome (published ds)) + 1)
      \<and> (\<forall>ds'. sync now ds = Some ds' \<longrightarrow>
           length (suspended ds') \<le> 1 \<and> (isSyncing ds' \<longleftrightarrow> suspended ds' \<noteq> []))"
    if r: "ds_run acts (SrvraDataSync opts) = Some ds" for ds
  proof -
    have g: "guard_inv ds"
      using guard_inv_new r by (rule ds_run_keeps_guard)
    have a: "isSyncing ds \<longrightarrow> sync now ds = Some ds"
      by (simp add: sync_def)
    have b: "isSyncing ds \<longrightarrow>
          \<not> isSyncing (sync_resume 0 results hsr now' ds)
          \<and> suspended (sync_resume 0 results hsr now' ds) = []
          \<and> length (filter is_sync_outcome (published (sync_resume 0 results hsr now' ds)))
               = length (filter is_sync_outcome (published ds)) + 1"
    proof
      assume "isSyncing ds"
      then have l: "0 < length (suspended ds)" using g by (simp add: guard_inv_def)
      have "guard_inv (sync_resume 0 results hsr now' ds)"
        using g by (rule sync_resume_guard)
      then show "\<not> isSyncing (sync_resume 0 results hsr now' ds)
          \<and> suspended (sync_resume 0 results hsr now' ds) = []
          \<and> length (filter is_sync_outcome (published (sync_resume 0 results hsr now' ds)))
               = length (filter is_sync_outcome (published ds)) + 1"
        using sync_resume_outcome [OF l] by (simp add: guard_inv_def)
    qed
    have d: "\<forall>ds'. sync now ds = Some ds' \<longrightarrow>
           length (suspended ds') \<le> 1 \<and> (isSyncing ds' \<longleftrightarrow> suspended ds' \<noteq> [])"
      using sync_keeps_guard [OF g] by (simp add: guard_inv_def)
    show ?thesis
      using g a b d by (simp add: guard_inv_def)
  qed
  show ?thesis
    using ret inv by blast
qed

theorem sync_single_cycle_guard_witness:
  "0 < batchSize (SrvraDataSync_config no_ds_options)
   \<and> (\<exists>ds. ds_run [StoreWrite write_x, Sync 1] (SrvraDataSync no_ds_options) = Some ds
         \<and> isSyncing ds
         \<and> published ds = []
         \<and> sync 2 ds = Some ds
         \<and> \<not> isSyncing (sync_resume 0 accepted_x None 3 ds)
         \<and> length (filter is_sync_outcome (published (sync_resume 0 accepted_x None 3 ds))) = 1)"
proof -
  have h: "0 < batchSize (SrvraDataSync_config no_ds_options)"
    by (simp add: SrvraDataSync_config_def no_ds_options_def spread_def or_int_def)
  note t = sync_single_cycle_guard
    [of no_ds_options "[StoreWrite write_x, Sync 1]" 2 accepted_x None 3]
  obtain ds where r: "ds_run [StoreWrite write_x, Sync 1] (SrvraDataSync no_ds_options) = Some ds"
    using t h by blast
  have "map_option (\<lambda>ds. (isSyncing ds, published ds))
     (ds_run [StoreWrite write_x, Sync 1] (SrvraDataSync no_ds_options)) = Some (True, [])"
    by code_simp
  then have s: "isSyncing ds" and p: "published ds = []"
    using r by simp_all
  have "sync 2 ds = Some ds
         \<and> \<not> isSyncing (sync_resume 0 accepted_x None 3 ds)
         \<and> suspended (sync_resume 0 accepted_x None 3 ds) = []
         \<and> length (filter is_sync_outcome (published (sync_resume 0 accepted_x None 3 ds)))
              = length (filter is_sync_outcome (published ds)) + 1"
    using t r s by blast
  then show ?thesis
    using h r s p by simp
qed

text \<open>
  Claim C5, at an instance without delta updates, at a cycle that completes with one
  change while the sync queue holds an item of the same key: \<open>sync-complete\<close> is
  published with the timestamp, the number of changes and the (empty) list of
  conflicts, and the statistics are recorded; but the handler then fails on
  \<open>data.changes.some\<close>, so the queue still holds the item, the state store is as the
  write left it (no metadata), and nothing else is published. With an empty queue (at
  the default configuration) the handler fails at \<open>setMetadata\<close>, and again the store
  is as the write left it and \<open>sync-success\<close> is not published.
\<close>

theorem sync_complete_handler_fails:
  "map_option (\<lambda>ds. (syncQueue ds, published ds, syncStats ds, state (stateManager ds),
                      length (history (stateManager ds)), isSyncing ds))
     (ds_run [StoreWrite write_x, DataChange queued_x None, Sync 1, Resume 0 accepted_x None 2]
        (SrvraDataSync (no_ds_options\<lparr>o_enableDeltaUpdates := Some False\<rparr>)))
   = Some ([queued_x],
           [SyncComplete \<lparr>d_timestamp = 2, d_changes = ChangeCount 1, d_conflicts = []\<rparr>],
           Some \<lparr>lastSuccessfulSync = 2, changesProcessed = ChangeCount 1, conflictsResolved = 0\<rparr>,
           [(''x'', JNum 1)], 1, False)
   \<and> map_option (\<lambda>ds. (syncQueue ds, published ds, state (stateManager ds),
                      length (history (stateManager ds)), isSyncing ds))
     (ds_run [StoreWrite write_x, Sync 1, Resume 0 accepted_x None 2]
        (SrvraDataSync no_ds_options))
   = Some ([],
           [SyncComplete \<lparr>d_timestamp = 2, d_changes = ChangeCount 1, d_conflicts = []\<rparr>],
           [(''x'', JNum 1)], 1, False)"
  by code_simp

section \<open>Properties of the constructors\<close>




text \<open>\<open>setState\<close> reads neither \<open>enableVersioning\<close> nor \<open>autoSync\<close>: the store after a
  call is the same whatever their values.\<close>

lemma after_setState_ignores_flags:
  "after_setState c (s\<lparr>config := (config s)\<lparr>enableVersioning := v, autoSync := a\<rparr>\<rparr>)
     = (after_setState c s)\<lparr>config := (config s)\<lparr>enableVersioning := v, autoSync := a\<rparr>\<rparr>"
  by (simp add: after_setState_def setState_def trackHistory_def notifySubscribers_def Let_def
      split: prod.splits sum.splits option.splits)




end
